theory Spec2Isabelle
  imports Complex_Main "HOL-Library.Word" "HOL-Library.Multiset" "HOL-Library.FSet"
begin

section \<open>Machine types\<close>

text \<open>
  \<open>size_t\<close> is an unsigned 64-bit integer and \<open>uint\<close> an unsigned 32-bit integer; both
  wrap around. Where a count is only compared, indexed with or converted to \<open>double\<close> it
  is a \<open>nat\<close>; where the source subtracts two of them the wrap-around is written out.
\<close>

type_synonym size_t = "64 word"
type_synonym uint = "32 word"

text \<open>
  A \<open>double\<close> is a finite number, an infinity or NaN. The linear algebra of \<open>predict\<close>
  and of \<open>compute_variance\<close> is modelled with exact real numbers: there the values of
  \<open>Data\<close> and \<open>Observations\<close> are finite (\<open>real\<close>). The scalar code of
  \<open>compute_debiased_error\<close>, of \<open>compute_variance\<close> and of the sampler works on doubles,
  with the rounding of each operation. The sign of a zero is not modelled.
\<close>

datatype double = Fin real | PInf | NInf | NaN

section \<open>The language binding: \<open>regression_train\<close>\<close>

text \<open>
  \<open>ForestOptions\<close> as the binding fills it, in the order of the constructor call.
\<close>

record forest_options =
  opt_num_trees :: uint
  opt_ci_group_size :: uint
  opt_sample_fraction :: real
  opt_mtry :: uint
  opt_min_node_size :: uint
  opt_honesty :: bool
  opt_alpha :: real
  opt_imbalance_penalty :: real
  opt_num_threads :: uint
  opt_seed :: uint
  opt_clusters :: "size_t list"
  opt_samples_per_cluster :: uint

text \<open>
  The collaborators of the binding are not part of the sources (\<open>ForestTrainers\<close>,
  \<open>RcppUtilities\<close>, \<open>ForestTrainer::train\<close>); they are the first five parameters. The
  result list is the forest object followed by the entry \<open>min.node.size\<close>.
\<close>

definition regression_train ::
  "(size_t \<Rightarrow> 'trainer) \<Rightarrow> ('dense \<Rightarrow> 'sparse \<Rightarrow> 'data) \<Rightarrow>
   ('trainer \<Rightarrow> 'data \<Rightarrow> forest_options \<Rightarrow> 'forest) \<Rightarrow>
   ('forest \<Rightarrow> 'data \<Rightarrow> (string \<times> 'v) list) \<Rightarrow> (uint \<Rightarrow> 'v) \<Rightarrow>
   'dense \<Rightarrow> 'sparse \<Rightarrow> size_t \<Rightarrow> uint \<Rightarrow> uint \<Rightarrow> uint \<Rightarrow> uint \<Rightarrow> real \<Rightarrow> uint \<Rightarrow>
   bool \<Rightarrow> uint \<Rightarrow> real \<Rightarrow> real \<Rightarrow> size_t list \<Rightarrow> uint \<Rightarrow> (string \<times> 'v) list" where
  "regression_train regression_trainer convert_data train create_forest_object wrap
     input_data sparse_input_data outcome_index mtry num_trees num_threads min_node_size
     sample_fraction seed honesty ci_group_size alpha imbalance_penalty clusters
     samples_per_cluster =
   (let trainer = regression_trainer (outcome_index - 1);
        data = convert_data input_data sparse_input_data;
        options = \<lparr>opt_num_trees = num_trees, opt_ci_group_size = ci_group_size,
          opt_sample_fraction = sample_fraction, opt_mtry = mtry,
          opt_min_node_size = min_node_size, opt_honesty = honesty, opt_alpha = alpha,
          opt_imbalance_penalty = imbalance_penalty, opt_num_threads = num_threads,
          opt_seed = seed, opt_clusters = clusters,
          opt_samples_per_cluster = samples_per_cluster\<rparr>;
        forest = train trainer data options;
        result = create_forest_object forest data
    in result @ [(''min.node.size'', wrap (opt_min_node_size options))])"

section \<open>Interfaces of the prediction strategies\<close>

text \<open>
  \<open>Data\<close>, \<open>Observations\<close> and \<open>PredictionValues\<close> are declared outside the sources; the
  strategies only read them, through the accessors below. A leaf value is a double,
  special values included.
\<close>

record data =
  get_num_rows :: nat
  get_num_cols :: nat
  data_get :: "nat \<Rightarrow> nat \<Rightarrow> real"

record observations =
  get_num_samples :: nat
  Observations_OUTCOME :: nat
  obs_get :: "nat \<Rightarrow> nat \<Rightarrow> real"

record prediction_values =
  get_num_nodes :: nat
  pv_empty :: "nat \<Rightarrow> bool"
  pv_get :: "nat \<Rightarrow> nat \<Rightarrow> double"

definition OUTCOME :: nat where
  "OUTCOME = 0"

section \<open>Dense matrices\<close>

text \<open>
  An \<open>Eigen::MatrixXd\<close>: its dimensions and its coefficients, read with \<open>M(i, j)\<close> and
  \<open>v(i)\<close> (column \<open>0\<close>). The coefficients of a matrix that was only allocated are
  unspecified in Eigen; the code assigns each of them before it reads it, and the model
  starts from zero. Arithmetic on coefficients is exact: the order in which Eigen adds up
  the terms of a product is not fixed by the sources, so rounding is left out.
\<close>

record matrix =
  mat_rows :: nat
  mat_cols :: nat
  coeff :: "nat \<Rightarrow> nat \<Rightarrow> real"

definition zero_matrix :: "nat \<Rightarrow> nat \<Rightarrow> matrix" where
  "zero_matrix r c = \<lparr>mat_rows = r, mat_cols = c, coeff = (\<lambda>i j. 0)\<rparr>"

definition new_matrix :: "nat \<Rightarrow> nat \<Rightarrow> matrix" where
  "new_matrix r c = zero_matrix r c"

definition set_coeff :: "matrix \<Rightarrow> nat \<Rightarrow> nat \<Rightarrow> real \<Rightarrow> matrix" where
  "set_coeff M i j v = M\<lparr>coeff := (coeff M)(i := (coeff M i)(j := v))\<rparr>"

definition transpose_matrix :: "matrix \<Rightarrow> matrix" where
  "transpose_matrix M =
     \<lparr>mat_rows = mat_cols M, mat_cols = mat_rows M, coeff = (\<lambda>i j. coeff M j i)\<rparr>"

definition mat_mult :: "matrix \<Rightarrow> matrix \<Rightarrow> matrix" where
  "mat_mult A B =
     \<lparr>mat_rows = mat_rows A, mat_cols = mat_cols B,
      coeff = (\<lambda>i j. \<Sum>k\<leftarrow>[0..<mat_cols A]. coeff A i k * coeff B k j)\<rparr>"

definition as_diagonal :: "matrix \<Rightarrow> matrix" where
  "as_diagonal v =
     \<lparr>mat_rows = mat_rows v, mat_cols = mat_rows v,
      coeff = (\<lambda>i j. if i = j then coeff v i 0 else 0)\<rparr>"

definition trace :: "matrix \<Rightarrow> real" where
  "trace M = (\<Sum>i\<leftarrow>[0..<min (mat_rows M) (mat_cols M)]. coeff M i i)"

text \<open>
  The linear solvers of Eigen (\<open>ldlt().solve\<close>, \<open>colPivHouseholderQr().solve\<close>) are not
  part of the sources: a solver is a parameter, a function from the matrix and the right
  hand side to the solution.
\<close>

type_synonym solver = "matrix \<Rightarrow> matrix \<Rightarrow> matrix"

section \<open>\<open>LocalLinearPredictionStrategy\<close> with several \<open>lambdas\<close>\<close>

text \<open>
  The strategy that takes \<open>lambdas\<close>, \<open>use_unweighted_penalty\<close> and
  \<open>linear_correction_variables\<close> (the source file that follows the README of
  \<open>third_party/Distributions\<close>).
\<close>

record ll_strategy =
  original_data :: data
  test_data :: data
  lambdas :: "real list"
  use_unweighted_penalty :: bool
  linear_correction_variables :: "nat list"

definition prediction_length :: "ll_strategy \<Rightarrow> nat" where
  "prediction_length s = length (lambdas s)"

text \<open>
  \<open>weights_by_sampleID\<close> is an \<open>unordered_map\<close>: a list of pairs with distinct keys, in
  the order in which the map is traversed. The first loop copies the keys to \<open>indices\<close>
  and the weights to \<open>weights_vec\<close>.
\<close>

definition read_weights :: "(nat \<times> real) list \<Rightarrow> nat list \<times> matrix" where
  "read_weights weights_by_sampleID =
     (let num_nonzero_weights = length weights_by_sampleID;
          (i, indices, weights_vec) =
            fold (\<lambda>it (i, indices, weights_vec).
                    let index = fst it; weight = snd it
                    in (i + 1, indices[i := index], set_coeff weights_vec i 0 weight))
              weights_by_sampleID
              (0, replicate num_nonzero_weights 0, zero_matrix num_nonzero_weights 1)
      in (indices, weights_vec))"

text \<open>The loops that fill the design matrix \<open>X\<close> and the responses \<open>Y\<close>.\<close>

definition fill_row :: "ll_strategy \<Rightarrow> nat \<Rightarrow> nat list \<Rightarrow> nat \<Rightarrow> matrix \<Rightarrow> matrix" where
  "fill_row s sampleID indices i X =
     fold (\<lambda>j X.
             let current_predictor = linear_correction_variables s ! j
             in set_coeff X i (j + 1)
                  (data_get (original_data s) (indices ! i) current_predictor
                   - data_get (test_data s) sampleID current_predictor))
       [0..<length (linear_correction_variables s)] X"

definition fill_design ::
  "ll_strategy \<Rightarrow> nat \<Rightarrow> nat list \<Rightarrow> observations \<Rightarrow> matrix \<times> matrix" where
  "fill_design s sampleID indices obs =
     (let num_variables = length (linear_correction_variables s);
          num_nonzero_weights = length indices
      in fold (\<lambda>i (X, Y).
                 let X = fill_row s sampleID indices i X;
                     Y = set_coeff Y i 0 (obs_get obs (Observations_OUTCOME obs) (indices ! i));
                     X = set_coeff X i 0 1
                 in (X, Y))
           [0..<num_nonzero_weights]
           (new_matrix num_nonzero_weights (num_variables + 1),
            new_matrix num_nonzero_weights 1))"

text \<open>The ridge penalty on the diagonal, from index \<open>1\<close> on.\<close>

definition ridge_penalty :: "bool \<Rightarrow> real \<Rightarrow> nat \<Rightarrow> matrix \<Rightarrow> matrix" where
  "ridge_penalty unweighted lambda num_variables M =
     (if unweighted then
        (let normalization = trace M / real (num_variables + 1)
         in fold (\<lambda>i M. set_coeff M i i (coeff M i i + lambda * normalization))
              [1..<num_variables + 1] M)
      else fold (\<lambda>i M. set_coeff M i i (coeff M i i + lambda * coeff M i i))
             [1..<num_variables + 1] M)"

definition gram :: "matrix \<Rightarrow> matrix \<Rightarrow> matrix \<Rightarrow> matrix" where
  "gram X weights_vec Z = mat_mult (mat_mult (transpose_matrix X) (as_diagonal weights_vec)) Z"

text \<open>
  One round of the loop over \<open>lambdas\<close>: \<open>M\<close> is reset to \<open>M_stored\<close>, penalised, and
  the system is solved; the first coefficient of the solution is prediction \<open>i\<close>.
\<close>

definition predict_step ::
  "solver \<Rightarrow> ll_strategy \<Rightarrow> matrix \<Rightarrow> matrix \<Rightarrow> matrix \<Rightarrow> matrix \<Rightarrow> nat \<Rightarrow>
   matrix \<times> real list \<Rightarrow> matrix \<times> real list" where
  "predict_step ldlt_solve s X Y weights_vec M_stored i state =
     (case state of (M, predictions) \<Rightarrow>
        let lambda = lambdas s ! i;
            M = M_stored;
            M = ridge_penalty (use_unweighted_penalty s) lambda
                  (length (linear_correction_variables s)) M;
            preds = ldlt_solve M (gram X weights_vec Y)
        in (M, predictions[i := coeff preds 0 0]))"

definition predict ::
  "solver \<Rightarrow> ll_strategy \<Rightarrow> nat \<Rightarrow> (nat \<times> real) list \<Rightarrow> observations \<Rightarrow> real list" where
  "predict ldlt_solve s sampleID weights_by_sampleID obs =
     (let (indices, weights_vec) = read_weights weights_by_sampleID;
          (X, Y) = fill_design s sampleID indices obs;
          M = gram X weights_vec X;
          M_stored = M;
          num_lambdas = length (lambdas s);
          predictions = replicate num_lambdas 0;
          (M, predictions) =
            fold (predict_step ldlt_solve s X Y weights_vec M_stored) [0..<num_lambdas]
              (M, predictions)
      in predictions)"

text \<open>
  For the statements below: \<open>X\<close> and \<open>Y\<close> as \<open>predict\<close> builds them, the matrix
  \<open>M = X\<^sup>T W X\<close> before any penalty, and the right hand side \<open>X\<^sup>T W Y\<close>.
\<close>

definition design ::
  "ll_strategy \<Rightarrow> nat \<Rightarrow> (nat \<times> real) list \<Rightarrow> observations \<Rightarrow> matrix \<times> matrix" where
  "design s sampleID weights_by_sampleID obs =
     fill_design s sampleID (fst (read_weights weights_by_sampleID)) obs"

definition stored_M ::
  "ll_strategy \<Rightarrow> nat \<Rightarrow> (nat \<times> real) list \<Rightarrow> observations \<Rightarrow> matrix" where
  "stored_M s sampleID weights_by_sampleID obs =
     (let (indices, weights_vec) = read_weights weights_by_sampleID;
          (X, Y) = fill_design s sampleID indices obs
      in gram X weights_vec X)"

definition right_hand_side ::
  "ll_strategy \<Rightarrow> nat \<Rightarrow> (nat \<times> real) list \<Rightarrow> observations \<Rightarrow> matrix" where
  "right_hand_side s sampleID weights_by_sampleID obs =
     (let (indices, weights_vec) = read_weights weights_by_sampleID;
          (X, Y) = fill_design s sampleID indices obs
      in gram X weights_vec Y)"

section \<open>\<open>LocalLinearPredictionStrategy\<close> with one \<open>lambda\<close>\<close>

text \<open>
  The strategy of \<open>core/src/prediction/LocalLinearPredictionStrategy.cpp\<close>, the one the
  bindings \<open>local_linear_predict\<close> and \<open>local_linear_predict_oob\<close> build: one \<open>lambda\<close>, a
  \<open>ridge_type\<close>, and every column of the data as a regressor.
\<close>

record ll_strategy_core =
  core_original_data :: data
  core_test_data :: data
  core_lambda :: real
  core_ridge_type :: bool

definition prediction_length_core :: "ll_strategy_core \<Rightarrow> nat" where
  "prediction_length_core s = 1"

definition fill_weights_core :: "nat \<Rightarrow> (nat \<times> real) list \<Rightarrow> matrix" where
  "fill_weights_core n weights_by_sampleID =
     fold (\<lambda>it weights. let i = fst it; weight = snd it in set_coeff weights i i weight)
       weights_by_sampleID (zero_matrix n n)"

definition fill_row_core :: "ll_strategy_core \<Rightarrow> nat \<Rightarrow> nat \<Rightarrow> nat \<Rightarrow> matrix \<Rightarrow> matrix" where
  "fill_row_core s sampleID p i X =
     fold (\<lambda>j X. set_coeff X i (j + 1)
                   (data_get (core_test_data s) sampleID j
                    - data_get (core_original_data s) i j))
       [0..<p] X"

definition fill_design_core ::
  "ll_strategy_core \<Rightarrow> nat \<Rightarrow> observations \<Rightarrow> matrix \<times> matrix" where
  "fill_design_core s sampleID obs =
     (let n = get_num_samples obs;
          p = get_num_cols (core_test_data s)
      in fold (\<lambda>i (X, Y).
                 let X = fill_row_core s sampleID p i X;
                     Y = set_coeff Y i 0 (obs_get obs (Observations_OUTCOME obs) i);
                     X = set_coeff X i 0 1
                 in (X, Y))
           [0..<n] (new_matrix n (p + 1), new_matrix n 1))"

text \<open>
  \<open>M.trace()/p+1\<close> is the trace divided by \<open>p\<close>, plus one. (With \<open>p = 0\<close> the loop that
  would use the quotient does not run.)
\<close>

definition ridge_penalty_core :: "bool \<Rightarrow> real \<Rightarrow> nat \<Rightarrow> matrix \<Rightarrow> matrix" where
  "ridge_penalty_core ridge_type lambda p M =
     (if ridge_type then
        (let additional_regularization = trace M / real p + 1
         in fold (\<lambda>i M. set_coeff M i i (coeff M i i + lambda * additional_regularization))
              [1..<p + 1] M)
      else fold (\<lambda>i M. set_coeff M i i (coeff M i i + lambda * coeff M i i))
             [1..<p + 1] M)"

definition predict_core ::
  "solver \<Rightarrow> ll_strategy_core \<Rightarrow> nat \<Rightarrow> (nat \<times> real) list \<Rightarrow> observations \<Rightarrow> real list" where
  "predict_core qr_solve s sampleID weights_by_sampleID obs =
     (let n = get_num_samples obs;
          p = get_num_cols (core_test_data s);
          weights = fill_weights_core n weights_by_sampleID;
          (X, Y) = fill_design_core s sampleID obs;
          M = mat_mult (mat_mult (transpose_matrix X) weights) X;
          M = ridge_penalty_core (core_ridge_type s) (core_lambda s) p M;
          preds = qr_solve M (mat_mult (mat_mult (transpose_matrix X) weights) Y)
      in [coeff preds 0 0])"

text \<open>For the statements below: \<open>M = X\<^sup>T W X\<close> of \<open>predict_core\<close> before the penalty.\<close>

definition unpenalised_M_core ::
  "ll_strategy_core \<Rightarrow> nat \<Rightarrow> (nat \<times> real) list \<Rightarrow> observations \<Rightarrow> matrix" where
  "unpenalised_M_core s sampleID weights_by_sampleID obs =
     (let n = get_num_samples obs;
          weights = fill_weights_core n weights_by_sampleID;
          (X, Y) = fill_design_core s sampleID obs
      in mat_mult (mat_mult (transpose_matrix X) weights) X)"

section \<open>Double arithmetic with rounding\<close>

text \<open>
  In \<open>RandomSampler\<close> the number of rows that are drawn is the ceiling of a product of
  doubles, so the rounding of each operation is part of the model there: IEEE 754
  binary64, round to nearest, ties to even, with 53 significant bits. The exponent range
  is not bounded here (no overflow, no subnormal numbers): the values of the sampler are
  counts below \<open>2\<^sup>6\<^sup>4\<close> and their products with numbers between \<open>0\<close> and \<open>1\<close>. Such a
  product can only leave the normal range by being smaller than \<open>2\<^sup>-\<^sup>1\<^sup>0\<^sup>2\<^sup>2\<close>; it is then a
  positive number below \<open>1\<close> in the hardware as in this model, which is all that its
  ceiling and its comparison with a count depend on.
\<close>

definition pow2 :: "int \<Rightarrow> real" where
  "pow2 e = (if 0 \<le> e then 2 ^ nat e else 1 / 2 ^ nat (- e))"

function bits_up :: "real \<Rightarrow> nat" where
  "bits_up x = (if x < 2 then 0 else Suc (bits_up (x / 2)))"
  by pat_completeness auto
termination
proof (relation "measure (\<lambda>x. nat \<lfloor>x\<rfloor>)")
  show "wf (measure (\<lambda>x. nat \<lfloor>x\<rfloor>))" by simp
next
  fix x :: real
  assume "\<not> x < 2"
  then have "x / 2 \<le> x - 1" by simp
  then have "\<lfloor>x / 2\<rfloor> \<le> \<lfloor>x - 1\<rfloor>" by (rule floor_mono)
  moreover have "2 \<le> \<lfloor>x\<rfloor>" using \<open>\<not> x < 2\<close> by (simp add: le_floor_iff)
  ultimately show "(x / 2, x) \<in> measure (\<lambda>x. nat \<lfloor>x\<rfloor>)" by simp
qed

function bits_down :: "real \<Rightarrow> nat" where
  "bits_down x = (if x \<le> 0 \<or> 1 \<le> x then 0 else Suc (bits_down (2 * x)))"
  by pat_completeness auto
termination
proof (relation "measure (\<lambda>x. nat \<lceil>1 / x\<rceil>)")
  show "wf (measure (\<lambda>x. nat \<lceil>1 / x\<rceil>))" by simp
next
  fix x :: real
  assume "\<not> (x \<le> 0 \<or> 1 \<le> x)"
  then have x: "0 < x" "x < 1" by simp_all
  then have y: "1 < 1 / x" by simp
  then have c: "2 \<le> \<lceil>1 / x\<rceil>" by linarith
  have "1 / (2 * x) = (1 / x) / 2" by simp
  also have "\<dots> \<le> of_int \<lceil>1 / x\<rceil> / 2" by (simp add: divide_right_mono)
  also have "\<dots> \<le> of_int (\<lceil>1 / x\<rceil> - 1)" using c by simp
  finally have "1 / (2 * x) \<le> of_int (\<lceil>1 / x\<rceil> - 1)" .
  then have "\<lceil>1 / (2 * x)\<rceil> \<le> \<lceil>1 / x\<rceil> - 1" by (rule ceiling_le)
  with c have "nat \<lceil>1 / (2 * x)\<rceil> < nat \<lceil>1 / x\<rceil>" by linarith
  then show "(2 * x, x) \<in> measure (\<lambda>x. nat \<lceil>1 / x\<rceil>)" by simp
qed

declare bits_up.simps [simp del] bits_down.simps [simp del]

text \<open>The binary exponent of a positive number: \<open>2\<^sup>e \<le> x < 2\<^sup>e\<^sup>+\<^sup>1\<close>.\<close>

definition ilog2 :: "real \<Rightarrow> int" where
  "ilog2 x = (if 1 \<le> x then int (bits_up x) else - int (bits_down x))"

definition round_even :: "real \<Rightarrow> int" where
  "round_even t =
     (let f = \<lfloor>t\<rfloor>; d = t - of_int f
      in if d < 1 / 2 then f else if 1 / 2 < d then f + 1 else if even f then f else f + 1)"

definition rnd53 :: "real \<Rightarrow> real" where
  "rnd53 x =
     (if x = 0 then 0
      else let a = \<bar>x\<bar>; u = pow2 (ilog2 a - 52)
           in sgn x * (of_int (round_even (a / u)) * u))"

definition fl :: "double \<Rightarrow> double" where
  "fl d = (case d of Fin x \<Rightarrow> Fin (rnd53 x) | _ \<Rightarrow> d)"

text \<open>The exact product and quotient with the special values, then rounded.\<close>

fun dtimes :: "double \<Rightarrow> double \<Rightarrow> double" where
  "dtimes NaN _ = NaN"
| "dtimes _ NaN = NaN"
| "dtimes (Fin a) (Fin b) = Fin (a * b)"
| "dtimes (Fin a) PInf = (if a = 0 then NaN else if 0 < a then PInf else NInf)"
| "dtimes (Fin a) NInf = (if a = 0 then NaN else if 0 < a then NInf else PInf)"
| "dtimes PInf (Fin b) = (if b = 0 then NaN else if 0 < b then PInf else NInf)"
| "dtimes NInf (Fin b) = (if b = 0 then NaN else if 0 < b then NInf else PInf)"
| "dtimes PInf PInf = PInf"
| "dtimes PInf NInf = NInf"
| "dtimes NInf PInf = NInf"
| "dtimes NInf NInf = PInf"

fun ddivide :: "double \<Rightarrow> double \<Rightarrow> double" where
  "ddivide NaN _ = NaN"
| "ddivide _ NaN = NaN"
| "ddivide (Fin a) (Fin b) =
     (if b = 0 then (if a = 0 then NaN else if 0 < a then PInf else NInf) else Fin (a / b))"
| "ddivide (Fin a) PInf = Fin 0"
| "ddivide (Fin a) NInf = Fin 0"
| "ddivide PInf (Fin b) = (if 0 \<le> b then PInf else NInf)"
| "ddivide NInf (Fin b) = (if 0 \<le> b then NInf else PInf)"
| "ddivide PInf PInf = NaN"
| "ddivide PInf NInf = NaN"
| "ddivide NInf PInf = NaN"
| "ddivide NInf NInf = NaN"

definition fl_times :: "double \<Rightarrow> double \<Rightarrow> double" where
  "fl_times a b = fl (dtimes a b)"

definition fl_divide :: "double \<Rightarrow> double \<Rightarrow> double" where
  "fl_divide a b = fl (ddivide a b)"

definition to_double :: "nat \<Rightarrow> double" where
  "to_double n = Fin (rnd53 (real n))"

definition dceil :: "double \<Rightarrow> double" where
  "dceil d = (case d of Fin x \<Rightarrow> Fin (of_int \<lceil>x\<rceil>) | _ \<Rightarrow> d)"

definition dle :: "double \<Rightarrow> double \<Rightarrow> bool" where
  "dle a b =
     (case (a, b) of
        (NaN, _) \<Rightarrow> False | (_, NaN) \<Rightarrow> False
      | (Fin x, Fin y) \<Rightarrow> x \<le> y
      | (NInf, _) \<Rightarrow> True | (_, PInf) \<Rightarrow> True
      | _ \<Rightarrow> False)"

text \<open>
  What the code can do instead of returning a result of its own: a conversion of a double
  outside the range of the target type and an index outside a vector, both undefined in
  C++, like an integer division by zero (what a compiled program does then is not
  determined by the sources, and nothing is stated about it here), and a
  \<open>vector::resize\<close> beyond \<open>max_size()\<close>, which throws \<open>std::length_error\<close>.
\<close>

datatype failure = Undefined_conversion | Length_error | Out_of_range | Division_by_zero

text \<open>The cast \<open>(uint)\<close>: truncation, defined for values in \<open>(-1, 2\<^sup>3\<^sup>2)\<close> only.\<close>

definition to_uint :: "double \<Rightarrow> failure + nat" where
  "to_uint d =
     (case d of
        Fin x \<Rightarrow> if - 1 < x \<and> x < 2 ^ 32 then Inr (nat \<lfloor>x\<rfloor>) else Inl Undefined_conversion
      | _ \<Rightarrow> Inl Undefined_conversion)"

definition vector_max_size :: nat where
  "vector_max_size = 2 ^ 60 - 1"

section \<open>\<open>RandomSampler\<close>\<close>

text \<open>
  \<open>SamplingOptions\<close> is declared outside the sources; the sampler reads it through these
  accessors. \<open>cluster_map[id]\<close> of an \<open>unordered_map\<close> yields an empty vector for an
  unknown id, so the map is a total function.
\<close>

record sampling_options =
  get_sample_weights :: "real list"
  get_cluster_map :: "nat \<Rightarrow> nat list"
  get_samples_per_cluster :: nat
  get_num_clusters :: nat

text \<open>
  The generator and the distributions of the standard library are not part of the
  sources. \<open>'g\<close> is the state of \<open>random_number_generator\<close>; each operation returns its
  result and the next state.
\<close>

record 'g rng_ops =
  rng_shuffle :: "nat list \<Rightarrow> 'g \<Rightarrow> nat list \<times> 'g"
  rng_uniform_int :: "nat \<Rightarrow> nat \<Rightarrow> 'g \<Rightarrow> nat \<times> 'g"
  rng_uniform_real :: "'g \<Rightarrow> real \<times> 'g"

text \<open>
  What the standard promises of them: \<open>std::shuffle\<close> permutes, a
  \<open>uniform_int_distribution(a, b)\<close> yields a value in \<open>[a, b]\<close>, and a
  \<open>uniform_real_distribution<double>(0, 1)\<close> yields a double in \<open>[0, 1)\<close>, so at most
  \<open>1 - 2\<^sup>-\<^sup>5\<^sup>3\<close>.
\<close>

definition std_library :: "'g rng_ops \<Rightarrow> bool" where
  "std_library ops \<longleftrightarrow>
     (\<forall>xs g. mset (fst (rng_shuffle ops xs g)) = mset xs) \<and>
     (\<forall>a b g. a \<le> b \<longrightarrow> a \<le> fst (rng_uniform_int ops a b g) \<and> fst (rng_uniform_int ops a b g) \<le> b) \<and>
     (\<forall>g. 0 \<le> fst (rng_uniform_real ops g) \<and> fst (rng_uniform_real ops g) \<le> 1 - 1 / 2 ^ 53)"



text \<open>\<open>subsample\<close> with the out-of-bag output.\<close>

definition subsample ::
  "'g rng_ops \<Rightarrow> nat list \<Rightarrow> double \<Rightarrow> 'g \<Rightarrow> failure + (nat list \<times> nat list \<times> 'g)" where
  "subsample ops samples sample_fraction g =
     (case rng_shuffle ops samples g of (shuffled_sample, g) \<Rightarrow>
        (case to_uint (dceil (fl_times (to_double (length samples)) sample_fraction)) of
           Inl e \<Rightarrow> Inl e
         | Inr subsample_size \<Rightarrow>
             let oob_size = (2 ^ 64 + length samples - subsample_size) mod 2 ^ 64
             in if vector_max_size < oob_size then Inl Length_error
                else Inr (take subsample_size shuffled_sample,
                          drop subsample_size shuffled_sample, g)))"

text \<open>
  \<open>sample_from_clusters\<close>: the key of \<open>cluster_map\<close> is a \<open>uint\<close>, so the cluster id is
  taken modulo \<open>2\<^sup>3\<^sup>2\<close>; the rows drawn from each cluster are appended to \<open>samples\<close>.
\<close>

fun sample_from_clusters ::
  "'g rng_ops \<Rightarrow> sampling_options \<Rightarrow> nat list \<Rightarrow> nat list \<Rightarrow> 'g \<Rightarrow> failure + (nat list \<times> 'g)" where
  "sample_from_clusters ops options [] samples g = Inr (samples, g)"
| "sample_from_clusters ops options (cluster_id # cluster_samples) samples g =
     (let cluster_obs = get_cluster_map options (cluster_id mod 2 ^ 32);
          cluster_obs_sample_fraction =
            fl_divide (to_double (get_samples_per_cluster options)) (to_double (length cluster_obs))
      in case subsample ops cluster_obs cluster_obs_sample_fraction g of
           Inl e \<Rightarrow> Inl e
         | Inr (cluster_obs_subsample, dummy_cluster_obs_oob_subsample, g) \<Rightarrow>
             sample_from_clusters ops options cluster_samples (samples @ cluster_obs_subsample) g)"

text \<open>
  The product that \<open>subsample\<close> computes for a cluster of \<open>n\<close> rows, the double product
  \<open>n * (samples_per_cluster / n)\<close>, and the number of rows it keeps, the ceiling of that
  product.
\<close>

definition cluster_product :: "nat \<Rightarrow> nat \<Rightarrow> double" where
  "cluster_product samples_per_cluster n =
     fl_times (to_double n) (fl_divide (to_double samples_per_cluster) (to_double n))"

definition rows_per_cluster :: "nat \<Rightarrow> nat \<Rightarrow> nat" where
  "rows_per_cluster samples_per_cluster n =
     nat \<lceil>rnd53 (rnd53 (real n) * rnd53 (rnd53 (real samples_per_cluster) / rnd53 (real n)))\<rceil>"

text \<open>
  The loop over \<open>skip\<close>, a \<open>std::set\<close> that is traversed in increasing order: every
  skipped value that is not above the draw moves the draw up by one.
\<close>

definition skip_shift :: "nat list \<Rightarrow> nat \<Rightarrow> nat" where
  "skip_shift skip draw =
     fold (\<lambda>skip_value draw. if skip_value \<le> draw then draw + 1 else draw) skip draw"

text \<open>
  The \<open>do \<dots> while (temp[draw])\<close> loop of \<open>draw_simple\<close>. It runs until a value is drawn
  that was not drawn before; \<open>None\<close> is a loop that never ends.
\<close>

partial_function (option) redraw ::
  "'g rng_ops \<Rightarrow> nat list \<Rightarrow> bool list \<Rightarrow> nat \<Rightarrow> 'g \<Rightarrow> (failure + nat \<times> 'g) option" where
  "redraw ops skip temp hi g =
     (case rng_uniform_int ops 0 hi g of (d, g') \<Rightarrow>
        let draw = skip_shift skip d
        in if length temp \<le> draw then Some (Inl Out_of_range)
           else if temp ! draw then redraw ops skip temp hi g'
           else Some (Inr (draw, g')))"

fun draw_simple_loop ::
  "'g rng_ops \<Rightarrow> nat list \<Rightarrow> nat \<Rightarrow> nat \<Rightarrow> bool list \<Rightarrow> nat list \<Rightarrow> 'g \<Rightarrow>
   (failure + nat list \<times> 'g) option" where
  "draw_simple_loop ops skip hi 0 temp result g = Some (Inr (result, g))"
| "draw_simple_loop ops skip hi (Suc k) temp result g =
     (case redraw ops skip temp hi g of
        None \<Rightarrow> None
      | Some (Inl e) \<Rightarrow> Some (Inl e)
      | Some (Inr (draw, g')) \<Rightarrow>
          draw_simple_loop ops skip hi k (temp[draw := True]) (result @ [draw]) g')"

text \<open>
  \<open>draw_simple\<close> appends to \<open>result\<close>. The upper end of the distribution,
  \<open>max - 1 - skip.size()\<close>, is computed in \<open>size_t\<close>.
\<close>

definition draw_simple ::
  "'g rng_ops \<Rightarrow> nat list \<Rightarrow> nat \<Rightarrow> nat fset \<Rightarrow> nat \<Rightarrow> 'g \<Rightarrow> (failure + nat list \<times> 'g) option" where
  "draw_simple ops result max_value skip num_samples g =
     (let temp = replicate max_value False;
          hi = (2 ^ 64 + max_value - 1 - fcard skip) mod 2 ^ 64
      in draw_simple_loop ops (sorted_list_of_fset skip) hi num_samples temp result g)"

text \<open>
  The loop of \<open>draw_knuth\<close>: candidate \<open>j\<close> is skipped when the double product
  \<open>(size_no_skip - j) * u\<close> is at least \<open>num_samples - i\<close>, and selected otherwise. Both
  differences are computed in \<open>size_t\<close> and then converted to \<open>double\<close>.
\<close>

definition knuth_skips :: "nat \<Rightarrow> nat \<Rightarrow> nat \<Rightarrow> nat \<Rightarrow> real \<Rightarrow> bool" where
  "knuth_skips size_no_skip num_samples i j u =
     dle (to_double ((2 ^ 64 + num_samples - i) mod 2 ^ 64))
         (fl_times (to_double ((2 ^ 64 + size_no_skip - j) mod 2 ^ 64)) (Fin u))"

partial_function (option) draw_knuth_loop ::
  "'g rng_ops \<Rightarrow> nat list \<Rightarrow> nat \<Rightarrow> nat \<Rightarrow> nat \<Rightarrow> nat \<Rightarrow> nat list \<Rightarrow> 'g \<Rightarrow>
   (failure + nat list \<times> 'g) option" where
  "draw_knuth_loop ops skip size_no_skip num_samples i j result g =
     (if i < num_samples then
        (case rng_uniform_real ops g of (u, g') \<Rightarrow>
           if knuth_skips size_no_skip num_samples i j u
           then draw_knuth_loop ops skip size_no_skip num_samples i (j + 1) result g'
           else let final_value = skip_shift skip j
                in draw_knuth_loop ops skip size_no_skip num_samples (i + 1) (j + 1)
                     (result[i := final_value]) g')
      else Some (Inr (result, g)))"

text \<open>\<open>draw_knuth\<close> resizes \<open>result\<close> to \<open>num_samples\<close> and overwrites it.\<close>

definition draw_knuth ::
  "'g rng_ops \<Rightarrow> nat list \<Rightarrow> nat \<Rightarrow> nat fset \<Rightarrow> nat \<Rightarrow> 'g \<Rightarrow> (failure + nat list \<times> 'g) option" where
  "draw_knuth ops result max_value skip num_samples g =
     (let size_no_skip = (2 ^ 64 + max_value - fcard skip) mod 2 ^ 64;
          result = take num_samples result @ replicate (num_samples - length result) 0
      in draw_knuth_loop ops (sorted_list_of_fset skip) size_no_skip num_samples 0 0 result g)"

definition draw ::
  "'g rng_ops \<Rightarrow> nat list \<Rightarrow> nat \<Rightarrow> nat fset \<Rightarrow> nat \<Rightarrow> 'g \<Rightarrow> (failure + nat list \<times> 'g) option" where
  "draw ops result max_value skip num_samples g =
     (if num_samples < max_value div 2 then draw_simple ops result max_value skip num_samples g
      else draw_knuth ops result max_value skip num_samples g)"

section \<open>Binary64 arithmetic with its range\<close>

text \<open>
  \<open>compute_debiased_error\<close> squares and adds doubles of any size, so there the range of
  binary64 is part of the model too: a result whose rounded magnitude reaches \<open>2\<^sup>1\<^sup>0\<^sup>2\<^sup>4\<close> is
  an infinity, the spacing never goes below \<open>2\<^sup>-\<^sup>1\<^sup>0\<^sup>7\<^sup>4\<close> (subnormal numbers), and the special
  values propagate as IEEE 754 has it.
\<close>

definition round64 :: "real \<Rightarrow> double" where
  "round64 x =
     (if x = 0 then Fin 0
      else let a = \<bar>x\<bar>; u = pow2 (max (ilog2 a - 52) (- 1074));
               r = of_int (round_even (a / u)) * u
           in if 2 ^ 1024 \<le> r then (if 0 < x then PInf else NInf) else Fin (sgn x * r))"

definition round_double :: "double \<Rightarrow> double" where
  "round_double d = (case d of Fin x \<Rightarrow> round64 x | _ \<Rightarrow> d)"

fun dplus :: "double \<Rightarrow> double \<Rightarrow> double" where
  "dplus NaN _ = NaN"
| "dplus _ NaN = NaN"
| "dplus (Fin a) (Fin b) = Fin (a + b)"
| "dplus (Fin a) PInf = PInf"
| "dplus (Fin a) NInf = NInf"
| "dplus PInf (Fin b) = PInf"
| "dplus NInf (Fin b) = NInf"
| "dplus PInf PInf = PInf"
| "dplus PInf NInf = NaN"
| "dplus NInf PInf = NaN"
| "dplus NInf NInf = NInf"

definition dneg :: "double \<Rightarrow> double" where
  "dneg d = (case d of Fin x \<Rightarrow> Fin (- x) | PInf \<Rightarrow> NInf | NInf \<Rightarrow> PInf | NaN \<Rightarrow> NaN)"

definition plus64 :: "double \<Rightarrow> double \<Rightarrow> double" where
  "plus64 a b = round_double (dplus a b)"

definition minus64 :: "double \<Rightarrow> double \<Rightarrow> double" where
  "minus64 a b = round_double (dplus a (dneg b))"

definition times64 :: "double \<Rightarrow> double \<Rightarrow> double" where
  "times64 a b = round_double (dtimes a b)"

definition divide64 :: "double \<Rightarrow> double \<Rightarrow> double" where
  "divide64 a b = round_double (ddivide a b)"

text \<open>The conversion of a \<open>size_t\<close> to \<open>double\<close>.\<close>

definition of_size64 :: "nat \<Rightarrow> double" where
  "of_size64 n = round64 (real n)"

text \<open>The doubles that are not negative and not NaN.\<close>

definition nonneg64 :: "double \<Rightarrow> bool" where
  "nonneg64 d = (case d of Fin x \<Rightarrow> 0 \<le> x | PInf \<Rightarrow> True | _ \<Rightarrow> False)"

section \<open>\<open>LocalLinearPredictionStrategy::compute_debiased_error\<close>\<close>

text \<open>
  The outcome that \<open>observations.get(Observations::OUTCOME, sample)\<close> returns is a double
  that enters scalar arithmetic here, so the observations are read as doubles.
\<close>

record double_observations =
  dobs_OUTCOME :: nat
  dobs_get :: "nat \<Rightarrow> nat \<Rightarrow> double"

text \<open>
  The loop over the nodes of \<open>leaf_values\<close>: a tree with an empty leaf value is skipped,
  every other one adds the square of its value to \<open>bias\<close> and one to \<open>num_trees\<close>.
\<close>

definition debiased_error_step ::
  "prediction_values \<Rightarrow> nat \<Rightarrow> double \<times> nat \<Rightarrow> double \<times> nat" where
  "debiased_error_step leaf_values n acc =
     (case acc of (bias, num_trees) \<Rightarrow>
        if pv_empty leaf_values n then (bias, num_trees)
        else (let tree_variance = pv_get leaf_values n OUTCOME
              in (plus64 bias (times64 tree_variance tree_variance), num_trees + 1)))"

text \<open>
  \<open>num_trees * (num_trees - 1)\<close> is a product of \<open>size_t\<close>, taken modulo \<open>2\<^sup>6\<^sup>4\<close> and then
  converted to \<open>double\<close>.
\<close>

definition compute_debiased_error ::
  "nat \<Rightarrow> prediction_values \<Rightarrow> double_observations \<Rightarrow> double list" where
  "compute_debiased_error sample leaf_values obs =
     (let outcome = dobs_get obs (dobs_OUTCOME obs) sample;
          error = outcome;
          mse = times64 error error;
          (bias, num_trees) =
            fold (debiased_error_step leaf_values) [0..<get_num_nodes leaf_values] (Fin 0, 0)
      in if num_trees \<le> 1 then [NaN]
         else (let bias = divide64 bias (of_size64 ((num_trees * (num_trees - 1)) mod 2 ^ 64))
               in [minus64 mse bias]))"

text \<open>
  The trees that count: the nodes of \<open>leaf_values\<close> that are not empty, and their leaf
  values. The sum of the squares is taken in the order of the loop.
\<close>

definition nonempty_trees :: "prediction_values \<Rightarrow> nat list" where
  "nonempty_trees leaf_values =
     filter (\<lambda>n. \<not> pv_empty leaf_values n) [0..<get_num_nodes leaf_values]"

definition tree_values :: "prediction_values \<Rightarrow> double list" where
  "tree_values leaf_values = map (\<lambda>n. pv_get leaf_values n OUTCOME) (nonempty_trees leaf_values)"

definition sum_of_squares :: "double list \<Rightarrow> double" where
  "sum_of_squares vs = fold (\<lambda>v bias. plus64 bias (times64 v v)) vs (Fin 0)"

section \<open>\<open>LocalLinearPredictionStrategy::compute_variance\<close>\<close>












section \<open>Example inputs\<close>

text \<open>
  Two training samples with two columns, all zero; one query \<open>(1, 2)\<close>; only sample \<open>0\<close>
  has a weight. Every outcome is \<open>2\<close>.
\<close>

definition ex_core :: ll_strategy_core where
  "ex_core =
     \<lparr>core_original_data = \<lparr>get_num_rows = 2, get_num_cols = 2, data_get = (\<lambda>r c. 0)\<rparr>,
      core_test_data = \<lparr>get_num_rows = 1, get_num_cols = 2, data_get = (\<lambda>r c. real c + 1)\<rparr>,
      core_lambda = 1, core_ridge_type = True\<rparr>"

definition ex_obs :: observations where
  "ex_obs = \<lparr>get_num_samples = 2, Observations_OUTCOME = 0, obs_get = (\<lambda>t s. 2)\<rparr>"

text \<open>
  Two training samples \<open>x = 0\<close> and \<open>x = 2\<close> with outcomes \<open>1\<close> and \<open>5\<close>, the query \<open>x = 1\<close>,
  weights \<open>1/4\<close> and \<open>3/4\<close>, one correction variable and the penalties \<open>0\<close> and \<open>1\<close>.
\<close>

definition ex_strategy :: ll_strategy where
  "ex_strategy =
     \<lparr>original_data = \<lparr>get_num_rows = 2, get_num_cols = 1, data_get = (\<lambda>r c. 2 * real r)\<rparr>,
      test_data = \<lparr>get_num_rows = 1, get_num_cols = 1, data_get = (\<lambda>r c. 1)\<rparr>,
      lambdas = [0, 1], use_unweighted_penalty = True, linear_correction_variables = [0]\<rparr>"

definition ex_obs_linear :: observations where
  "ex_obs_linear =
     \<lparr>get_num_samples = 2, Observations_OUTCOME = 0, obs_get = (\<lambda>t s. 1 + 4 * real s)\<rparr>"

definition ex_weights :: "(nat \<times> real) list" where
  "ex_weights = [(1, 3 / 4), (0, 1 / 4)]"

text \<open>A solver for systems of two equations, by Cramer's rule.\<close>

definition solve2 :: solver where
  "solve2 M b =
     (let det = coeff M 0 0 * coeff M 1 1 - coeff M 0 1 * coeff M 1 0
      in \<lparr>mat_rows = 2, mat_cols = 1,
          coeff = (\<lambda>i j. if i = 0
                     then (coeff b 0 0 * coeff M 1 1 - coeff M 0 1 * coeff b 1 0) / det
                     else (coeff M 0 0 * coeff b 1 0 - coeff b 0 0 * coeff M 1 0) / det)\<rparr>)"

text \<open>
  Three trees, the middle one with an empty leaf; leaf values \<open>1\<close> and \<open>2\<close>; every outcome
  is \<open>2\<close>. Then the same trees with leaf values and outcomes \<open>2\<^sup>6\<^sup>0\<^sup>0\<close>, whose squares are
  beyond the range of a double.
\<close>

definition ex_leaf_values :: prediction_values where
  "ex_leaf_values =
     \<lparr>get_num_nodes = 3, pv_empty = (\<lambda>n. n = 1),
      pv_get = (\<lambda>n t. if n = 0 then Fin 1 else Fin 2)\<rparr>"

definition ex_outcomes :: double_observations where
  "ex_outcomes = \<lparr>dobs_OUTCOME = 0, dobs_get = (\<lambda>t s. Fin 2)\<rparr>"

definition ex_large_leaf_values :: prediction_values where
  "ex_large_leaf_values =
     \<lparr>get_num_nodes = 3, pv_empty = (\<lambda>n. n = 1), pv_get = (\<lambda>n t. Fin (2 ^ 600))\<rparr>"

definition ex_large_outcomes :: double_observations where
  "ex_large_outcomes = \<lparr>dobs_OUTCOME = 0, dobs_get = (\<lambda>t s. Fin (2 ^ 600))\<rparr>"

text \<open>
  A generator whose state is a counter: \<open>shuffle\<close> reverses, the uniform integers go
  round the range, the uniform reals alternate between \<open>1/2\<close> and \<open>0\<close>.
\<close>

definition ex_rng :: "nat rng_ops" where
  "ex_rng =
     \<lparr>rng_shuffle = (\<lambda>xs g. (rev xs, g + 1)),
      rng_uniform_int = (\<lambda>a b g. (a + g mod (b - a + 1), g + 1)),
      rng_uniform_real = (\<lambda>g. (if even g then 1 / 2 else 0, g + 1))\<rparr>"





text \<open>The doubles nearest to \<open>1/10\<close> and to \<open>3/10\<close>: the values of the literals \<open>0.1\<close> and \<open>0.3\<close>.\<close>

definition ex_tenth :: real where
  "ex_tenth = 3602879701896397 / 36028797018963968"

definition ex_three_tenths :: real where
  "ex_three_tenths = 5404319552844595 / 18014398509481984"

text \<open>Clusters \<open>0\<close>, \<open>1\<close> and \<open>2\<close> of two, four and a hundred rows.\<close>

definition ex_options :: sampling_options where
  "ex_options =
     \<lparr>get_sample_weights = [],
      get_cluster_map = (\<lambda>c. if c = 0 then [5, 6] else if c = 1 then [10, 11, 12, 13]
                             else if c = 2 then [100..<200] else []),
      get_samples_per_cluster = 3,
      get_num_clusters = 3\<rparr>"

section \<open>Properties of the binding\<close>

text \<open>
  C9. \<open>regression_train\<close> reads the outcome index of the host as counted from one: the
  trainer is built from the index minus one, so a host index \<open>k \<ge> 1\<close> names the column
  \<open>k - 1\<close> of the internal numbering, and everything else is built from that trainer.
\<close>

theorem regression_train_outcome_index:
  assumes "1 \<le> unat outcome_index"
  shows "\<exists>internal_index.
    unat internal_index = unat outcome_index - 1 \<and>
    unat internal_index + 1 = unat outcome_index \<and>
    regression_train regression_trainer convert_data train create_forest_object wrap
      input_data sparse_input_data outcome_index mtry num_trees num_threads min_node_size
      sample_fraction seed honesty ci_group_size alpha imbalance_penalty clusters
      samples_per_cluster =
    create_forest_object
      (train (regression_trainer internal_index)
         (convert_data input_data sparse_input_data)
         \<lparr>opt_num_trees = num_trees, opt_ci_group_size = ci_group_size,
          opt_sample_fraction = sample_fraction, opt_mtry = mtry,
          opt_min_node_size = min_node_size, opt_honesty = honesty, opt_alpha = alpha,
          opt_imbalance_penalty = imbalance_penalty, opt_num_threads = num_threads,
          opt_seed = seed, opt_clusters = clusters,
          opt_samples_per_cluster = samples_per_cluster\<rparr>)
      (convert_data input_data sparse_input_data)
    @ [(''min.node.size'', wrap min_node_size)]"
proof -
  have nz: "outcome_index \<noteq> 0"
    using assms by (auto simp: unat_eq_0)
  have "unat (outcome_index - 1) = unat outcome_index - 1"
    using nz by (simp add: unat_minus_one)
  moreover have "unat (outcome_index - 1) + 1 = unat outcome_index"
    using calculation assms by simp
  ultimately show ?thesis
    by (intro exI [of _ "outcome_index - 1"]) (simp add: regression_train_def Let_def)
qed

theorem regression_train_outcome_index_witness:
  "1 \<le> unat (3 :: size_t) \<and>
   regression_train unat (\<lambda>(d :: nat) (s :: nat). d + s)
     (\<lambda>t d (opts :: forest_options). t + d) (\<lambda>f d. [(''forest'', f)]) unat
     10 0 (3 :: size_t) 1 1 1 5 (1 / 2) 1 True 1 (1 / 20) 0 [] 0
   = [(''forest'', 12 :: nat), (''min.node.size'', 5)]"
proof -
  have h: "1 \<le> unat (3 :: size_t)" by simp
  obtain internal_index :: size_t where
    i: "unat internal_index = unat (3 :: size_t) - 1" and
    r: "regression_train unat (\<lambda>(d :: nat) (s :: nat). d + s)
          (\<lambda>t d (opts :: forest_options). t + d) (\<lambda>f d. [(''forest'', f)]) unat
          10 0 (3 :: size_t) 1 1 1 5 (1 / 2) 1 True 1 (1 / 20) 0 [] 0
        = [(''forest'', unat internal_index + (10 + 0))] @ [(''min.node.size'', unat (5 :: uint))]"
    using regression_train_outcome_index [OF h, where regression_trainer = unat
        and convert_data = "\<lambda>(d :: nat) (s :: nat). d + s"
        and train = "\<lambda>t d (opts :: forest_options). t + d"
        and create_forest_object = "\<lambda>f d. [(''forest'', f)]" and wrap = unat
        and input_data = 10 and sparse_input_data = 0 and min_node_size = 5]
    by blast
  show ?thesis using h i r by simp
qed

section \<open>Properties of the local linear predictions\<close>

lemma coeff_set_coeff [simp]:
  "coeff (set_coeff M i j v) r c = (if r = i \<and> c = j then v else coeff M r c)"
  by (simp add: set_coeff_def)


lemma dims_set_coeff [simp]:
  "mat_rows (set_coeff M i j v) = mat_rows M" "mat_cols (set_coeff M i j v) = mat_cols M"
  by (simp_all add: set_coeff_def)


lemma read_weights_fold:
  "i + length ws \<le> length indices \<Longrightarrow>
   fold (\<lambda>it (i, indices, weights_vec).
           (i + 1, indices[i := fst it], set_coeff weights_vec i 0 (snd it)))
     ws (i, indices, wv) = (i', indices', wv') \<Longrightarrow>
   i' = i + length ws \<and>
   indices' = take i indices @ map fst ws @ drop (i + length ws) indices \<and>
   mat_rows wv' = mat_rows wv \<and> mat_cols wv' = mat_cols wv \<and>
   (\<forall>r c. coeff wv' r c =
      (if i \<le> r \<and> r < i + length ws \<and> c = 0 then snd (ws ! (r - i)) else coeff wv r c))"
proof (induction ws arbitrary: i indices wv)
  case Nil
  then show ?case by simp
next
  case (Cons w ws)
  from Cons.prems(1) have len: "Suc i + length ws \<le> length (indices[i := fst w])" by simp
  from Cons.prems(2) have f:
    "fold (\<lambda>it (i, indices, weights_vec).
           (i + 1, indices[i := fst it], set_coeff weights_vec i 0 (snd it)))
     ws (Suc i, indices[i := fst w], set_coeff wv i 0 (snd w)) = (i', indices', wv')"
    by (simp add: Let_def)
  note IH = Cons.IH [OF len f]
  have t: "take (Suc i) (indices[i := fst w]) = take i indices @ [fst w]"
    using Cons.prems(1) by (simp add: take_Suc_conv_app_nth)
  have d: "drop (Suc i + length ws) (indices[i := fst w]) = drop (Suc i + length ws) indices"
    by simp
  have c: "coeff wv' r c =
      (if i \<le> r \<and> r < i + length (w # ws) \<and> c = 0 then snd ((w # ws) ! (r - i))
       else coeff wv r c)" for r c
  proof (cases "r = i")
    case True
    with IH show ?thesis by simp
  next
    case False
    then have "(w # ws) ! (r - i) = ws ! (r - Suc i)" if "i \<le> r"
      using that by (simp add: nth_Cons')
    with False IH show ?thesis by simp
  qed
  from IH t d have "i' = i + length (w # ws)"
    and "indices' = take i indices @ map fst (w # ws) @ drop (i + length (w # ws)) indices"
    and "mat_rows wv' = mat_rows wv" and "mat_cols wv' = mat_cols wv"
    by simp_all
  with c show ?case by blast
qed

lemma read_weights_eq:
  assumes a: "read_weights w = (indices, wv)"
  shows "indices = map fst w" and "mat_rows wv = length w" and "mat_cols wv = 1"
    and "i < length w \<Longrightarrow> coeff wv i 0 = snd (w ! i)"
proof -
  obtain st where st: "st = fold (\<lambda>it (i, indices, weights_vec).
           (i + 1, indices[i := fst it], set_coeff weights_vec i 0 (snd it)))
     w (0, replicate (length w) 0, zero_matrix (length w) 1)"
    by simp
  obtain i' ind' wv' where t: "st = (i', ind', wv')"
    by (cases st) auto
  from a [unfolded read_weights_def Let_def]
  have "(case st of (i, indices, weights_vec) \<Rightarrow> (indices, weights_vec)) = (indices, wv)"
    unfolding st .
  with t have e: "ind' = indices" "wv' = wv"
    by simp_all
  have "0 + length w \<le> length (replicate (length w) (0::nat))" by simp
  from read_weights_fold [OF this t [unfolded st]] e
  show "indices = map fst w" and "mat_rows wv = length w" and "mat_cols wv = 1"
    and "i < length w \<Longrightarrow> coeff wv i 0 = snd (w ! i)"
    by (simp_all add: zero_matrix_def)
qed

lemma fill_row_coeff:
  "coeff (fill_row s q indices i X) r c =
     (if r = i \<and> 1 \<le> c \<and> c \<le> length (linear_correction_variables s)
      then data_get (original_data s) (indices ! i) (linear_correction_variables s ! (c - 1))
           - data_get (test_data s) q (linear_correction_variables s ! (c - 1))
      else coeff X r c)"
proof -
  have "coeff (fold (\<lambda>j X.
             let current_predictor = linear_correction_variables s ! j
             in set_coeff X i (j + 1)
                  (data_get (original_data s) (indices ! i) current_predictor
                   - data_get (test_data s) q current_predictor))
       [0..<n] X) r c =
     (if r = i \<and> 1 \<le> c \<and> c \<le> n
      then data_get (original_data s) (indices ! i) (linear_correction_variables s ! (c - 1))
           - data_get (test_data s) q (linear_correction_variables s ! (c - 1))
      else coeff X r c)" for n
    by (induction n) (auto simp: Let_def le_Suc_eq)
  then show ?thesis by (simp add: fill_row_def)
qed


lemma fill_row_dims [simp]:
  "mat_rows (fill_row s q indices i X) = mat_rows X"
  "mat_cols (fill_row s q indices i X) = mat_cols X"
proof -
  have "mat_rows (fold (\<lambda>j X.
             let current_predictor = linear_correction_variables s ! j
             in set_coeff X i (j + 1)
                  (data_get (original_data s) (indices ! i) current_predictor
                   - data_get (test_data s) q current_predictor))
       ns X) = mat_rows X \<and> mat_cols (fold (\<lambda>j X.
             let current_predictor = linear_correction_variables s ! j
             in set_coeff X i (j + 1)
                  (data_get (original_data s) (indices ! i) current_predictor
                   - data_get (test_data s) q current_predictor))
       ns X) = mat_cols X" for ns
    by (induction ns arbitrary: X) (simp_all add: Let_def)
  then show "mat_rows (fill_row s q indices i X) = mat_rows X"
  "mat_cols (fill_row s q indices i X) = mat_cols X" by (simp_all add: fill_row_def)
qed

lemma fill_design_fold:
  "fold (\<lambda>i (X, Y). (set_coeff (fill_row s q indices i X) i 0 1,
              set_coeff Y i 0 (obs_get obs (Observations_OUTCOME obs) (indices ! i))))
     [0..<n] (X0, Y0) = (X, Y) \<Longrightarrow>
   mat_rows X = mat_rows X0 \<and> mat_cols X = mat_cols X0 \<and>
   mat_rows Y = mat_rows Y0 \<and> mat_cols Y = mat_cols Y0 \<and>
   (\<forall>r c. coeff X r c =
      (if r < n \<and> c = 0 then 1
       else if r < n \<and> 1 \<le> c \<and> c \<le> length (linear_correction_variables s)
       then data_get (original_data s) (indices ! r) (linear_correction_variables s ! (c - 1))
           - data_get (test_data s) q (linear_correction_variables s ! (c - 1))
       else coeff X0 r c)) \<and>
   (\<forall>r c. coeff Y r c =
      (if r < n \<and> c = 0 then obs_get obs (Observations_OUTCOME obs) (indices ! r)
       else coeff Y0 r c))"
proof (induction n arbitrary: X Y)
  case 0
  then show ?case by simp
next
  case (Suc n)
  obtain X1 Y1 where f: "fold (\<lambda>i (X, Y). (set_coeff (fill_row s q indices i X) i 0 1,
              set_coeff Y i 0 (obs_get obs (Observations_OUTCOME obs) (indices ! i))))
     [0..<n] (X0, Y0) = (X1, Y1)"
    by fastforce
  note IH = Suc.IH [OF f]
  from Suc.prems f have X: "X = set_coeff (fill_row s q indices n X1) n 0 1"
    and Y: "Y = set_coeff Y1 n 0 (obs_get obs (Observations_OUTCOME obs) (indices ! n))"
    by simp_all
  have cX: "coeff X r c =
      (if r < Suc n \<and> c = 0 then 1
       else if r < Suc n \<and> 1 \<le> c \<and> c \<le> length (linear_correction_variables s)
       then data_get (original_data s) (indices ! r) (linear_correction_variables s ! (c - 1))
           - data_get (test_data s) q (linear_correction_variables s ! (c - 1))
       else coeff X0 r c)" for r c
    unfolding X using IH by (cases "r = n") (simp_all add: fill_row_coeff)
  have cY: "coeff Y r c =
      (if r < Suc n \<and> c = 0 then obs_get obs (Observations_OUTCOME obs) (indices ! r)
       else coeff Y0 r c)" for r c
    unfolding Y using IH by (cases "r = n") simp_all
  from IH have "mat_rows X = mat_rows X0" "mat_cols X = mat_cols X0"
   "mat_rows Y = mat_rows Y0" "mat_cols Y = mat_cols Y0"
    unfolding X Y by simp_all
  with cX cY show ?case by blast
qed

lemma fill_design_eq:
  assumes "fill_design s q indices obs = (X, Y)"
  shows "mat_rows X = length indices"
    and "mat_cols X = length (linear_correction_variables s) + 1"
    and "mat_rows Y = length indices" and "mat_cols Y = 1"
    and "i < length indices \<Longrightarrow> coeff X i 0 = 1"
    and "i < length indices \<Longrightarrow> j < length (linear_correction_variables s) \<Longrightarrow>
         coeff X i (j + 1) =
           data_get (original_data s) (indices ! i) (linear_correction_variables s ! j)
           - data_get (test_data s) q (linear_correction_variables s ! j)"
    and "i < length indices \<Longrightarrow> coeff Y i 0 = obs_get obs (Observations_OUTCOME obs) (indices ! i)"
  using fill_design_fold [OF assms [unfolded fill_design_def Let_def]]
  by (simp_all add: new_matrix_def zero_matrix_def)

lemma fold_diag_add:
  "coeff (fold (\<lambda>i M. set_coeff M i i (coeff M i i + d)) [a..<b] M) r c =
     (if r = c \<and> a \<le> r \<and> r < b then coeff M r r + d else coeff M r c)"
  by (induction b) (auto simp: less_Suc_eq)


lemma fold_diag_scale:
  "coeff (fold (\<lambda>i M. set_coeff M i i (coeff M i i + l * coeff M i i)) [a..<b] M) r c =
     (if r = c \<and> a \<le> r \<and> r < b then coeff M r r + l * coeff M r r else coeff M r c)"
  by (induction b) (auto simp: less_Suc_eq)


lemma ridge_penalty_coeff:
  "coeff (ridge_penalty u l nv M) r c =
     (if r = c \<and> 1 \<le> r \<and> r \<le> nv
      then coeff M r r + l * (if u then trace M / real (nv + 1) else coeff M r r)
      else coeff M r c)"
  by (auto simp: ridge_penalty_def Let_def fold_diag_add fold_diag_scale)


lemma ridge_penalty_core_coeff:
  "coeff (ridge_penalty_core u l p M) r c =
     (if r = c \<and> 1 \<le> r \<and> r \<le> p
      then coeff M r r + l * (if u then trace M / real p + 1 else coeff M r r)
      else coeff M r c)"
  by (auto simp: ridge_penalty_core_def Let_def fold_diag_add fold_diag_scale)

lemma predict_step_snd:
  "snd (predict_step solve s X Y wv M0 i st) =
     (snd st)[i := coeff (solve (ridge_penalty (use_unweighted_penalty s) (lambdas s ! i)
        (length (linear_correction_variables s)) M0) (gram X wv Y)) 0 0]"
  by (simp add: predict_step_def Let_def split_beta)

lemma fold_update_loop:
  assumes "\<And>i st. snd (F i st) = (snd st)[i := g i]"
  shows "n \<le> length (snd st0) \<Longrightarrow>
     length (snd (fold F [0..<n] st0)) = length (snd st0) \<and>
     (\<forall>i < length (snd st0). snd (fold F [0..<n] st0) ! i = (if i < n then g i else snd st0 ! i))"
  by (induction n) (auto simp: assms nth_list_update less_Suc_eq)

lemma predict_eq:
  "predict solve s q w obs =
     map (\<lambda>l. coeff (solve (ridge_penalty (use_unweighted_penalty s) l
        (length (linear_correction_variables s)) (stored_M s q w obs))
        (right_hand_side s q w obs)) 0 0) (lambdas s)"
proof -
  obtain indices wv where rw: "read_weights w = (indices, wv)" by fastforce
  obtain X Y where fd: "fill_design s q indices obs = (X, Y)" by fastforce
  let ?g = "\<lambda>i. coeff (solve (ridge_penalty (use_unweighted_penalty s) (lambdas s ! i)
        (length (linear_correction_variables s)) (gram X wv X)) (gram X wv Y)) 0 0"
  let ?st0 = "(gram X wv X, replicate (length (lambdas s)) (0::real))"
  have p: "predict solve s q w obs =
    snd (fold (predict_step solve s X Y wv (gram X wv X)) [0..<length (lambdas s)] ?st0)"
    by (simp add: predict_def rw fd Let_def split_beta)
  have "length (lambdas s) \<le> length (snd ?st0)" by simp
  from fold_update_loop [of "predict_step solve s X Y wv (gram X wv X)" ?g, OF predict_step_snd this]
  have "length (predict solve s q w obs) = length (lambdas s)"
    and "\<forall>i < length (lambdas s). predict solve s q w obs ! i = ?g i"
    unfolding p by simp_all
  then show ?thesis
    by (intro nth_equalityI) (simp_all add: stored_M_def right_hand_side_def rw fd)
qed

lemma fill_row_core_coeff:
  "coeff (fill_row_core s q p i X) r c =
     (if r = i \<and> 1 \<le> c \<and> c \<le> p
      then data_get (core_test_data s) q (c - 1) - data_get (core_original_data s) i (c - 1)
      else coeff X r c)"
  unfolding fill_row_core_def by (induction p) (auto simp: le_Suc_eq)

lemma fill_row_core_dims [simp]:
  "mat_rows (fill_row_core s q p i X) = mat_rows X"
  "mat_cols (fill_row_core s q p i X) = mat_cols X"
  unfolding fill_row_core_def by (induction p) simp_all

lemma fill_design_core_fold:
  "fold (\<lambda>i (X, Y). (set_coeff (fill_row_core s q p i X) i 0 1,
            set_coeff Y i 0 (obs_get obs (Observations_OUTCOME obs) i)))
     [0..<n] (X0, Y0) = (X, Y) \<Longrightarrow>
   mat_rows X = mat_rows X0 \<and> mat_cols X = mat_cols X0 \<and>
   mat_rows Y = mat_rows Y0 \<and> mat_cols Y = mat_cols Y0 \<and>
   (\<forall>r c. coeff X r c =
      (if r < n \<and> c = 0 then 1
       else if r < n \<and> 1 \<le> c \<and> c \<le> p
       then data_get (core_test_data s) q (c - 1) - data_get (core_original_data s) r (c - 1)
       else coeff X0 r c)) \<and>
   (\<forall>r c. coeff Y r c =
      (if r < n \<and> c = 0 then obs_get obs (Observations_OUTCOME obs) r else coeff Y0 r c))"
proof (induction n arbitrary: X Y)
  case 0
  then show ?case by simp
next
  case (Suc n)
  obtain X1 Y1 where f: "fold (\<lambda>i (X, Y). (set_coeff (fill_row_core s q p i X) i 0 1,
            set_coeff Y i 0 (obs_get obs (Observations_OUTCOME obs) i)))
     [0..<n] (X0, Y0) = (X1, Y1)"
    by fastforce
  note IH = Suc.IH [OF f]
  from Suc.prems f have X: "X = set_coeff (fill_row_core s q p n X1) n 0 1"
    and Y: "Y = set_coeff Y1 n 0 (obs_get obs (Observations_OUTCOME obs) n)"
    by simp_all
  have cX: "coeff X r c =
      (if r < Suc n \<and> c = 0 then 1
       else if r < Suc n \<and> 1 \<le> c \<and> c \<le> p
       then data_get (core_test_data s) q (c - 1) - data_get (core_original_data s) r (c - 1)
       else coeff X0 r c)" for r c
    unfolding X using IH by (cases "r = n") (simp_all add: fill_row_core_coeff)
  have cY: "coeff Y r c =
      (if r < Suc n \<and> c = 0 then obs_get obs (Observations_OUTCOME obs) r else coeff Y0 r c)"
    for r c
    unfolding Y using IH by (cases "r = n") simp_all
  from IH have "mat_rows X = mat_rows X0" "mat_cols X = mat_cols X0"
   "mat_rows Y = mat_rows Y0" "mat_cols Y = mat_cols Y0"
    unfolding X Y by simp_all
  with cX cY show ?case by blast
qed

lemma fill_design_core_eq:
  assumes "fill_design_core s q obs = (X, Y)"
  shows "mat_rows X = get_num_samples obs"
    and "mat_cols X = get_num_cols (core_test_data s) + 1"
    and "mat_rows Y = get_num_samples obs" and "mat_cols Y = 1"
    and "i < get_num_samples obs \<Longrightarrow> coeff X i 0 = 1"
    and "i < get_num_samples obs \<Longrightarrow> j < get_num_cols (core_test_data s) \<Longrightarrow>
         coeff X i (j + 1) =
           data_get (core_test_data s) q j - data_get (core_original_data s) i j"
    and "i < get_num_samples obs \<Longrightarrow> coeff Y i 0 = obs_get obs (Observations_OUTCOME obs) i"
  using fill_design_core_fold [OF assms [unfolded fill_design_core_def Let_def]]
  by (simp_all add: new_matrix_def zero_matrix_def)

lemma design_eq:
  assumes "design s q w obs = (X, Y)"
  shows "mat_rows X = length w"
    and "mat_cols X = length (linear_correction_variables s) + 1"
    and "mat_rows Y = length w" and "mat_cols Y = 1"
    and "i < length w \<Longrightarrow> coeff X i 0 = 1"
    and "i < length w \<Longrightarrow> j < length (linear_correction_variables s) \<Longrightarrow>
         coeff X i (j + 1) =
           data_get (original_data s) (fst (w ! i)) (linear_correction_variables s ! j)
           - data_get (test_data s) q (linear_correction_variables s ! j)"
    and "i < length w \<Longrightarrow> coeff Y i 0 = obs_get obs (Observations_OUTCOME obs) (fst (w ! i))"
proof -
  obtain indices wv where rw: "read_weights w = (indices, wv)" by fastforce
  note r = read_weights_eq [OF rw]
  from assms have fd: "fill_design s q (map fst w) obs = (X, Y)"
    by (simp add: design_def rw r(1))
  note f = fill_design_eq [OF fd]
  show "mat_rows X = length w"
    and "mat_cols X = length (linear_correction_variables s) + 1"
    and "mat_rows Y = length w" and "mat_cols Y = 1"
    and "i < length w \<Longrightarrow> coeff X i 0 = 1"
    and "i < length w \<Longrightarrow> j < length (linear_correction_variables s) \<Longrightarrow>
         coeff X i (j + 1) =
           data_get (original_data s) (fst (w ! i)) (linear_correction_variables s ! j)
           - data_get (test_data s) q (linear_correction_variables s ! j)"
    and "i < length w \<Longrightarrow> coeff Y i 0 = obs_get obs (Observations_OUTCOME obs) (fst (w ! i))"
    using f by simp_all
qed

lemma stored_M_design:
  "stored_M s q w obs =
     gram (fst (design s q w obs)) (snd (read_weights w)) (fst (design s q w obs))"
  by (simp add: stored_M_def design_def split_beta)

text \<open>
  C1, for the strategy with several \<open>lambdas\<close>: with \<open>use_unweighted_penalty\<close> the penalty
  adds \<open>lambda * trace M / (|V| + 1)\<close> to every diagonal entry from index \<open>1\<close> on, where
  \<open>M\<close> is the matrix before the penalty, and leaves every other entry as it is.
\<close>

lemma ridge_penalty_unweighted:
  "coeff (ridge_penalty True l (length (linear_correction_variables s)) (stored_M s q w obs)) r c =
     (if r = c \<and> 1 \<le> r \<and> r \<le> length (linear_correction_variables s)
      then coeff (stored_M s q w obs) r r
           + l * (trace (stored_M s q w obs) / real (length (linear_correction_variables s) + 1))
      else coeff (stored_M s q w obs) r c)"
  by (simp add: ridge_penalty_coeff)

text \<open>
  C1, for the strategy with one \<open>lambda\<close> (the one the bindings build): the penalty of
  \<open>ridge_type = true\<close> is \<open>lambda * (trace M / p + 1)\<close>, since \<open>M.trace()/p+1\<close> divides
  by \<open>p\<close> and then adds one. On the example input \<open>M\<close> has trace \<open>6\<close> and \<open>p = 2\<close>: the code
  adds \<open>6 / 2 + 1 = 4\<close> to \<open>M(1,1) = 1\<close> and to \<open>M(2,2) = 4\<close>, where
  \<open>lambda * trace M / (p + 1)\<close> is \<open>2\<close>.
\<close>

theorem ridge_penalty_core_adds_trace_over_p_plus_one:
  "trace (unpenalised_M_core ex_core 0 [(0, 1)] ex_obs) = 6 \<and>
   get_num_cols (core_test_data ex_core) = 2 \<and>
   coeff (unpenalised_M_core ex_core 0 [(0, 1)] ex_obs) 1 1 = 1 \<and>
   coeff (unpenalised_M_core ex_core 0 [(0, 1)] ex_obs) 2 2 = 4 \<and>
   coeff (ridge_penalty_core (core_ridge_type ex_core) (core_lambda ex_core)
            (get_num_cols (core_test_data ex_core))
            (unpenalised_M_core ex_core 0 [(0, 1)] ex_obs)) 1 1 = 5 \<and>
   coeff (ridge_penalty_core (core_ridge_type ex_core) (core_lambda ex_core)
            (get_num_cols (core_test_data ex_core))
            (unpenalised_M_core ex_core 0 [(0, 1)] ex_obs)) 2 2 = 8 \<and>
   coeff (unpenalised_M_core ex_core 0 [(0, 1)] ex_obs) 1 1
     + core_lambda ex_core * (trace (unpenalised_M_core ex_core 0 [(0, 1)] ex_obs)
         / real (get_num_cols (core_test_data ex_core) + 1)) = 3"
  by (simp add: ex_core_def ex_obs_def unpenalised_M_core_def fill_weights_core_def
      fill_design_core_def fill_row_core_def ridge_penalty_core_def trace_def mat_mult_def
      transpose_matrix_def new_matrix_def zero_matrix_def Let_def upt_rec set_coeff_def)

text \<open>
  C4 as stated fails for the strategy with one \<open>lambda\<close>: on the example input one sample
  out of two has a weight, and \<open>X\<close> has two rows, not one; its entry \<open>X(0,1)\<close> is the query
  minus the training value, \<open>1\<close>, not the training value minus the query, \<open>-1\<close>.
\<close>

theorem design_matrix_core_counterexample:
  "\<not> (mat_rows (fst (fill_design_core ex_core 0 ex_obs)) = length [(0 :: nat, 1 :: real)] \<and>
      coeff (fst (fill_design_core ex_core 0 ex_obs)) 0 (0 + 1) =
        data_get (core_original_data ex_core) 0 0 - data_get (core_test_data ex_core) 0 0)"
  by (simp add: ex_core_def ex_obs_def fill_design_core_def fill_row_core_def
      new_matrix_def zero_matrix_def Let_def upt_rec set_coeff_def)

text \<open>
  C4, amended. In the strategy with several \<open>lambdas\<close>, \<open>X\<close> has one row for each entry of
  the weight map (\<open>k\<close> rows) and \<open>|V| + 1\<close> columns, with \<open>X(i,0) = 1\<close> and
  \<open>X(i,j+1) = data(indices(i), V(j)) - q(V(j))\<close>, and \<open>Y(i)\<close> is the outcome of sample
  \<open>indices(i)\<close>, the key of the \<open>i\<close>-th entry. In the strategy with one \<open>lambda\<close>, \<open>X\<close> has
  one row for each of the \<open>n\<close> training samples, with or without weight, and \<open>p + 1\<close>
  columns, with \<open>X(i,0) = 1\<close> and \<open>X(i,j+1) = q(j) - data(i,j)\<close>, and \<open>Y(i)\<close> is the outcome
  of sample \<open>i\<close>.
\<close>

theorem design_matrix_rows:
  "(case design s q w obs of (X, Y) \<Rightarrow>
      mat_rows X = length w \<and> mat_cols X = length (linear_correction_variables s) + 1 \<and>
      mat_rows Y = length w \<and> mat_cols Y = 1 \<and>
      (\<forall>i < length w.
         coeff X i 0 = 1 \<and>
         (\<forall>j < length (linear_correction_variables s).
            coeff X i (j + 1) =
              data_get (original_data s) (fst (w ! i)) (linear_correction_variables s ! j)
              - data_get (test_data s) q (linear_correction_variables s ! j)) \<and>
         coeff Y i 0 = obs_get obs (Observations_OUTCOME obs) (fst (w ! i)))) \<and>
   (case fill_design_core cs q' obs' of (X, Y) \<Rightarrow>
      mat_rows X = get_num_samples obs' \<and> mat_cols X = get_num_cols (core_test_data cs) + 1 \<and>
      mat_rows Y = get_num_samples obs' \<and> mat_cols Y = 1 \<and>
      (\<forall>i < get_num_samples obs'.
         coeff X i 0 = 1 \<and>
         (\<forall>j < get_num_cols (core_test_data cs).
            coeff X i (j + 1) =
              data_get (core_test_data cs) q' j - data_get (core_original_data cs) i j) \<and>
         coeff Y i 0 = obs_get obs' (Observations_OUTCOME obs') i))"
proof -
  obtain X Y where d: "design s q w obs = (X, Y)" by fastforce
  obtain X' Y' where c: "fill_design_core cs q' obs' = (X', Y')" by fastforce
  show ?thesis
    unfolding d c using design_eq [OF d] fill_design_core_eq [OF c] by simp
qed

theorem design_matrix_rows_witness:
  "mat_rows (fst (design ex_strategy 0 ex_weights ex_obs_linear)) = 2 \<and>
   coeff (fst (design ex_strategy 0 ex_weights ex_obs_linear)) 0 0 = 1 \<and>
   coeff (fst (design ex_strategy 0 ex_weights ex_obs_linear)) 0 (0 + 1) = 1 \<and>
   coeff (fst (design ex_strategy 0 ex_weights ex_obs_linear)) 1 (0 + 1) = - 1 \<and>
   coeff (snd (design ex_strategy 0 ex_weights ex_obs_linear)) 0 0 = 5 \<and>
   mat_rows (fst (fill_design_core ex_core 0 ex_obs)) = 2 \<and>
   coeff (fst (fill_design_core ex_core 0 ex_obs)) 1 (1 + 1) = 2"
proof -
  obtain X Y where d: "design ex_strategy 0 ex_weights ex_obs_linear = (X, Y)" by fastforce
  obtain X' Y' where c: "fill_design_core ex_core 0 ex_obs = (X', Y')" by fastforce
  note t = design_matrix_rows [where s = ex_strategy and q = 0 and w = ex_weights
      and obs = ex_obs_linear and cs = ex_core and q' = 0 and obs' = ex_obs,
      unfolded d c prod.case]
  have l: "0 < length ex_weights" "1 < length ex_weights"
    "0 < length (linear_correction_variables ex_strategy)"
    "1 < get_num_samples ex_obs" "1 < get_num_cols (core_test_data ex_core)"
    by (simp_all add: ex_weights_def ex_strategy_def ex_obs_def ex_core_def)
  from t have r: "mat_rows X = length ex_weights" "mat_rows X' = get_num_samples ex_obs"
    by blast+
  from t l(1) have r0: "coeff X 0 0 = 1"
    "\<forall>j < length (linear_correction_variables ex_strategy).
            coeff X 0 (j + 1) =
              data_get (original_data ex_strategy) (fst (ex_weights ! 0))
                (linear_correction_variables ex_strategy ! j)
              - data_get (test_data ex_strategy) 0 (linear_correction_variables ex_strategy ! j)"
    "coeff Y 0 0 = obs_get ex_obs_linear (Observations_OUTCOME ex_obs_linear) (fst (ex_weights ! 0))"
    by blast+
  from t l(2) have r1:
    "\<forall>j < length (linear_correction_variables ex_strategy).
            coeff X 1 (j + 1) =
              data_get (original_data ex_strategy) (fst (ex_weights ! 1))
                (linear_correction_variables ex_strategy ! j)
              - data_get (test_data ex_strategy) 0 (linear_correction_variables ex_strategy ! j)"
    by blast
  from t l(4) have r2: "\<forall>j < get_num_cols (core_test_data ex_core).
            coeff X' 1 (j + 1) =
              data_get (core_test_data ex_core) 0 j - data_get (core_original_data ex_core) 1 j"
    by blast
  from r0(2) l(3) have a: "coeff X 0 (0 + 1) = 1"
    by (simp add: ex_weights_def ex_strategy_def)
  from r1 l(3) have b: "coeff X 1 (0 + 1) = - 1"
    by (simp add: ex_weights_def ex_strategy_def)
  from r2 l(5) have e: "coeff X' 1 (1 + 1) = 2"
    by (simp add: ex_core_def)
  from r r0(1,3) a b e show ?thesis
    unfolding d c fst_conv snd_conv
    by (simp add: ex_weights_def ex_obs_linear_def ex_obs_def)
qed

text \<open>
  C5. With several \<open>lambdas\<close>, \<open>predict\<close> returns one prediction for each of them
  (\<open>prediction_length\<close> says the same), and prediction \<open>i\<close> is the first coefficient of the
  solution of the system whose matrix is \<open>M = X\<^sup>T W X\<close>, taken afresh and penalised with
  \<open>lambdas(i)\<close> alone. So it is the prediction that \<open>lambdas(i)\<close> gets when it is the only
  penalty supplied: the other penalties, and the place of \<open>lambdas(i)\<close> among them, have no
  influence on it.
\<close>

theorem predict_fresh_copy_per_lambda:
  "prediction_length s = length (lambdas s) \<and>
   length (predict solve s q w obs) = length (lambdas s) \<and>
   (\<forall>i < length (lambdas s).
      predict solve s q w obs ! i =
        coeff (solve (ridge_penalty (use_unweighted_penalty s) (lambdas s ! i)
                 (length (linear_correction_variables s)) (stored_M s q w obs))
               (right_hand_side s q w obs)) 0 0 \<and>
      predict solve s q w obs ! i = predict solve (s\<lparr>lambdas := [lambdas s ! i]\<rparr>) q w obs ! 0)"
proof -
  have a: "stored_M (s\<lparr>lambdas := ls\<rparr>) q w obs = stored_M s q w obs"
    and b: "right_hand_side (s\<lparr>lambdas := ls\<rparr>) q w obs = right_hand_side s q w obs" for ls
    by (simp_all add: stored_M_def right_hand_side_def fill_design_def fill_row_def)
  show ?thesis
    by (simp add: predict_eq prediction_length_def a b)
qed

theorem predict_fresh_copy_per_lambda_witness:
  "length (predict solve2 ex_strategy 0 ex_weights ex_obs_linear) = 2 \<and>
   predict solve2 ex_strategy 0 ex_weights ex_obs_linear ! 0 = 3 \<and>
   predict solve2 ex_strategy 0 ex_weights ex_obs_linear ! 1 = 25 / 7 \<and>
   predict solve2 (ex_strategy\<lparr>lambdas := [lambdas ex_strategy ! 1]\<rparr>) 0 ex_weights
     ex_obs_linear ! 0 = 25 / 7"
proof -
  have l: "length (lambdas ex_strategy) = 2" "0 < length (lambdas ex_strategy)"
    "1 < length (lambdas ex_strategy)"
    "lambdas ex_strategy ! 0 = 0" "lambdas ex_strategy ! 1 = 1"
    by (simp_all add: ex_strategy_def)
  have M: "coeff (stored_M ex_strategy 0 ex_weights ex_obs_linear) 0 0 = 1"
    "coeff (stored_M ex_strategy 0 ex_weights ex_obs_linear) 0 (Suc 0) = 1 / 2"
    "coeff (stored_M ex_strategy 0 ex_weights ex_obs_linear) (Suc 0) 0 = 1 / 2"
    "coeff (stored_M ex_strategy 0 ex_weights ex_obs_linear) (Suc 0) (Suc 0) = 1"
    "trace (stored_M ex_strategy 0 ex_weights ex_obs_linear) = 2"
    "coeff (right_hand_side ex_strategy 0 ex_weights ex_obs_linear) 0 0 = 4"
    "coeff (right_hand_side ex_strategy 0 ex_weights ex_obs_linear) (Suc 0) 0 = 7 / 2"
    by (simp_all add: stored_M_def right_hand_side_def read_weights_def fill_design_def
        fill_row_def gram_def trace_def mat_mult_def transpose_matrix_def as_diagonal_def
        new_matrix_def zero_matrix_def set_coeff_def ex_strategy_def ex_weights_def
        ex_obs_linear_def Let_def upt_rec)
  have u: "use_unweighted_penalty ex_strategy" "length (linear_correction_variables ex_strategy) = 1"
    by (simp_all add: ex_strategy_def)
  note t = predict_fresh_copy_per_lambda [of ex_strategy solve2 0 ex_weights ex_obs_linear]
  from t l(1) have len: "length (predict solve2 ex_strategy 0 ex_weights ex_obs_linear) = 2"
    by simp
  from t l(2) have p0: "predict solve2 ex_strategy 0 ex_weights ex_obs_linear ! 0 =
        coeff (solve2 (ridge_penalty (use_unweighted_penalty ex_strategy) (lambdas ex_strategy ! 0)
                 (length (linear_correction_variables ex_strategy))
                 (stored_M ex_strategy 0 ex_weights ex_obs_linear))
               (right_hand_side ex_strategy 0 ex_weights ex_obs_linear)) 0 0"
    by blast
  from t l(3) have p1: "predict solve2 ex_strategy 0 ex_weights ex_obs_linear ! 1 =
        coeff (solve2 (ridge_penalty (use_unweighted_penalty ex_strategy) (lambdas ex_strategy ! 1)
                 (length (linear_correction_variables ex_strategy))
                 (stored_M ex_strategy 0 ex_weights ex_obs_linear))
               (right_hand_side ex_strategy 0 ex_weights ex_obs_linear)) 0 0"
    and p2: "predict solve2 ex_strategy 0 ex_weights ex_obs_linear ! 1 =
       predict solve2 (ex_strategy\<lparr>lambdas := [lambdas ex_strategy ! 1]\<rparr>) 0 ex_weights
         ex_obs_linear ! 0"
    by blast+
  have v0: "predict solve2 ex_strategy 0 ex_weights ex_obs_linear ! 0 = 3"
    unfolding p0 l(4) u(2)
    by (simp add: solve2_def ridge_penalty_coeff Let_def M u(1))
  have v1: "predict solve2 ex_strategy 0 ex_weights ex_obs_linear ! 1 = 25 / 7"
    unfolding p1 l(5) u(2)
    by (simp add: solve2_def ridge_penalty_coeff Let_def M u(1))
  from len v0 v1 p2 show ?thesis by simp
qed

section \<open>Properties of the rounding\<close>

lemma pow2_pos [simp]: "0 < pow2 e"
  by (simp add: pow2_def)

lemma pow2_neq0 [simp]: "pow2 e \<noteq> 0"
  by (simp add: pow2_def)

lemma pow2_Suc: "pow2 (e + 1) = 2 * pow2 e"
proof (cases "0 \<le> e")
  case True
  then have "nat (e + 1) = Suc (nat e)" by simp
  with True show ?thesis by (simp add: pow2_def)
next
  case False
  then have "nat (- e) = Suc (nat (- (e + 1)))" by simp
  with False show ?thesis by (simp add: pow2_def)
qed

lemma pow2_nonneg: "0 \<le> e \<Longrightarrow> pow2 e = 2 ^ nat e"
  by (simp add: pow2_def)

lemma pow2_nonpos: "e \<le> 0 \<Longrightarrow> pow2 e = 1 / 2 ^ nat (- e)"
  by (cases "e = 0") (simp_all add: pow2_def)

lemma pow2_ge0 [simp]: "0 \<le> pow2 e"
  by (simp add: pow2_def)

lemma pow2_add_nat: "pow2 (a + int k) = pow2 a * 2 ^ k"
proof (induction k)
  case 0
  show ?case by simp
next
  case (Suc k)
  have "a + int (Suc k) = (a + int k) + 1" by simp
  then have "pow2 (a + int (Suc k)) = 2 * pow2 (a + int k)"
    by (simp only: pow2_Suc)
  with Suc show ?case by simp
qed

lemma pow2_mono: "a \<le> b \<Longrightarrow> pow2 a \<le> pow2 b"
proof -
  assume "a \<le> b"
  then have "b = a + int (nat (b - a))" by simp
  then have "pow2 b = pow2 a * 2 ^ nat (b - a)" by (metis pow2_add_nat)
  moreover have "(1 :: real) \<le> 2 ^ nat (b - a)" by simp
  ultimately show ?thesis
    using mult_left_mono [of 1 "2 ^ nat (b - a)" "pow2 a"] by simp
qed

lemma bits_up_spec: "1 \<le> x \<Longrightarrow> 2 ^ bits_up x \<le> x \<and> x < 2 * 2 ^ bits_up x"
proof (induction x rule: bits_up.induct)
  case (1 x)
  show ?case
  proof (cases "x < 2")
    case True
    with "1.prems" show ?thesis by (simp add: bits_up.simps [of x])
  next
    case False
    then have "1 \<le> x / 2" by simp
    from "1.IH" [OF False this] have "2 ^ bits_up (x / 2) \<le> x / 2 \<and> x / 2 < 2 * 2 ^ bits_up (x / 2)" .
    moreover have "bits_up x = Suc (bits_up (x / 2))" using False by (simp add: bits_up.simps [of x])
    ultimately show ?thesis by simp
  qed
qed

lemma bits_down_spec:
  "0 < x \<Longrightarrow> x < 1 \<Longrightarrow> 1 / 2 ^ bits_down x \<le> x \<and> x < 2 / 2 ^ bits_down x"
proof (induction x rule: bits_down.induct)
  case (1 x)
  have step: "bits_down x = Suc (bits_down (2 * x))"
    using "1.prems" by (simp add: bits_down.simps [of x])
  show ?case
  proof (cases "2 * x < 1")
    case True
    have "\<not> (x \<le> 0 \<or> 1 \<le> x)" using "1.prems" by simp
    from "1.IH" [OF this _ True] "1.prems"
    have "1 / 2 ^ bits_down (2 * x) \<le> 2 * x \<and> 2 * x < 2 / 2 ^ bits_down (2 * x)" by simp
    then show ?thesis unfolding step by (simp add: field_simps)
  next
    case False
    then have "bits_down (2 * x) = 0" by (simp add: bits_down.simps [of "2 * x"])
    with step have "bits_down x = 1" by simp
    with False "1.prems" show ?thesis by simp
  qed
qed

lemma ilog2_spec:
  assumes "0 < x"
  shows "pow2 (ilog2 x) \<le> x" and "x < 2 * pow2 (ilog2 x)"
proof -
  have "pow2 (ilog2 x) \<le> x \<and> x < 2 * pow2 (ilog2 x)"
  proof (cases "1 \<le> x")
    case True
    with bits_up_spec [OF True] show ?thesis by (simp add: ilog2_def pow2_def)
  next
    case False
    then have l: "x < 1" by simp
    have "bits_down x \<noteq> 0" using assms l by (simp add: bits_down.simps [of x])
    with bits_down_spec [OF assms l] False show ?thesis
      by (simp add: ilog2_def pow2_def)
  qed
  then show "pow2 (ilog2 x) \<le> x" and "x < 2 * pow2 (ilog2 x)" by simp_all
qed

lemma ilog2_le:
  assumes "0 < x" "x < pow2 k"
  shows "ilog2 x < k"
proof (rule ccontr)
  assume "\<not> ilog2 x < k"
  then have "pow2 k \<le> pow2 (ilog2 x)" by (intro pow2_mono) simp
  with ilog2_spec(1) [OF assms(1)] assms(2) show False by simp
qed

lemma round_even_near: "\<bar>of_int (round_even t) - t\<bar> \<le> 1 / 2"
  unfolding round_even_def Let_def by (auto; linarith)

lemma round_even_le:
  assumes "t < of_int J + 1 / 2"
  shows "round_even t \<le> J"
proof -
  have "of_int (round_even t) \<le> t + 1 / 2" using round_even_near [of t] by linarith
  with assms have "(of_int (round_even t) :: real) < of_int J + 1" by linarith
  then have "(of_int (round_even t) :: real) < of_int (J + 1)" by simp
  then have "round_even t < J + 1" by (simp only: of_int_less_iff)
  then show ?thesis by simp
qed

lemma round_even_of_int [simp]: "round_even (of_int J) = J"
  by (simp add: round_even_def)

lemma rnd53_pos:
  "0 < x \<Longrightarrow> rnd53 x = of_int (round_even (x / pow2 (ilog2 x - 52))) * pow2 (ilog2 x - 52)"
  by (simp add: rnd53_def Let_def)

lemma rnd53_zero [simp]: "rnd53 0 = 0"
  by (simp add: rnd53_def)

text \<open>A number of the grid of \<open>x\<close> that is not below \<open>x\<close> is not below the rounded \<open>x\<close>.\<close>

lemma rnd53_le_grid:
  assumes "0 < x" and "x < (of_int J + 1 / 2) * pow2 (ilog2 x - 52)"
  shows "rnd53 x \<le> of_int J * pow2 (ilog2 x - 52)"
proof -
  let ?u = "pow2 (ilog2 x - 52)"
  have "x / ?u < of_int J + 1 / 2"
    using assms(2) by (simp add: pos_divide_less_eq)
  then have "round_even (x / ?u) \<le> J" by (rule round_even_le)
  then have "(of_int (round_even (x / ?u)) :: real) \<le> of_int J" by simp
  then have "of_int (round_even (x / ?u)) * ?u \<le> of_int J * ?u"
    by (intro mult_right_mono) simp_all
  then show ?thesis by (simp add: rnd53_pos [OF assms(1)])
qed

lemma rnd53_error:
  assumes "0 < x"
  shows "\<bar>rnd53 x - x\<bar> \<le> x / 2 ^ 53"
proof -
  let ?u = "pow2 (ilog2 x - 52)"
  have "\<bar>of_int (round_even (x / ?u)) - x / ?u\<bar> \<le> 1 / 2" by (rule round_even_near)
  then have "\<bar>of_int (round_even (x / ?u)) - x / ?u\<bar> * ?u \<le> 1 / 2 * ?u"
    by (intro mult_right_mono) simp_all
  moreover have "\<bar>of_int (round_even (x / ?u)) - x / ?u\<bar> * ?u
      = \<bar>of_int (round_even (x / ?u)) * ?u - x\<bar>"
  proof -
    have n: "?u \<noteq> 0" by simp
    have "(of_int (round_even (x / ?u)) - x / ?u) * ?u = of_int (round_even (x / ?u)) * ?u - x"
      using n by (simp add: left_diff_distrib)
    then have "\<bar>of_int (round_even (x / ?u)) * ?u - x\<bar>
        = \<bar>of_int (round_even (x / ?u)) - x / ?u\<bar> * \<bar>?u\<bar>"
      by (simp only: abs_mult [symmetric])
    then show ?thesis by simp
  qed
  ultimately have e: "\<bar>rnd53 x - x\<bar> \<le> ?u / 2" by (simp add: rnd53_pos [OF assms])
  have "pow2 (ilog2 x) = pow2 (ilog2 x - 52) * 2 ^ 52"
    using pow2_add_nat [of "ilog2 x - 52" 52] by simp
  with ilog2_spec(1) [OF assms] have "?u * 2 ^ 52 \<le> x" by simp
  then have "?u / 2 \<le> x / 2 ^ 53" by simp
  with e show ?thesis by linarith
qed

lemma round_even_ge:
  assumes "of_int J - 1 / 2 < t"
  shows "J \<le> round_even t"
proof -
  have "t - 1 / 2 \<le> of_int (round_even t)" using round_even_near [of t] by linarith
  with assms have "(of_int J :: real) - 1 < of_int (round_even t)" by linarith
  then have "(of_int (J - 1) :: real) < of_int (round_even t)" by simp
  then have "J - 1 < round_even t" by (simp only: of_int_less_iff)
  then show ?thesis by simp
qed

text \<open>Below \<open>2\<^sup>5\<^sup>3\<close> every natural number lies on the grid of every smaller positive number.\<close>

lemma nat_on_grid:
  assumes "0 < x" and "x < 2 ^ 53"
  shows "\<exists>J. real m = of_int J * pow2 (ilog2 x - 52)"
proof -
  have "x < pow2 53" using assms(2) by (simp add: pow2_def)
  from ilog2_le [OF assms(1) this] have e: "ilog2 x - 52 \<le> 0" by simp
  let ?k = "nat (52 - ilog2 x)"
  have "pow2 (ilog2 x - 52) = 1 / 2 ^ ?k"
    using pow2_nonpos [OF e] by simp
  then have "real m = of_int (int m * 2 ^ ?k) * pow2 (ilog2 x - 52)" by simp
  then show ?thesis ..
qed

lemma rnd53_le_nat_shift:
  assumes "0 < x" and "x < 2 ^ 53"
    and "x < real m + (of_int j + 1 / 2) * pow2 (ilog2 x - 52)"
  shows "rnd53 x \<le> real m + of_int j * pow2 (ilog2 x - 52)"
proof -
  obtain J where J: "real m = of_int J * pow2 (ilog2 x - 52)"
    using nat_on_grid [OF assms(1,2)] by blast
  have "x < (of_int (J + j) + 1 / 2) * pow2 (ilog2 x - 52)"
    using assms(3) J by (simp add: algebra_simps)
  from rnd53_le_grid [OF assms(1) this] show ?thesis
    using J by (simp add: algebra_simps)
qed

lemma rnd53_le_nat:
  assumes "0 \<le> x" and "x \<le> real m" and "m < 2 ^ 53"
  shows "rnd53 x \<le> real m"
proof (cases "x = 0")
  case True
  then show ?thesis by simp
next
  case False
  with assms(1) have p: "0 < x" by simp
  have "real m < 2 ^ 53" using assms(3) by (metis of_nat_less_iff of_nat_numeral of_nat_power)
  with assms(2) have b: "x < 2 ^ 53" by simp
  have u: "0 < pow2 (ilog2 x - 52) / 2" by simp
  from assms(2) u have "x < real m + pow2 (ilog2 x - 52) / 2" by linarith
  then have "x < real m + (of_int 0 + 1 / 2) * pow2 (ilog2 x - 52)" by simp
  from rnd53_le_nat_shift [OF p b this] show ?thesis by simp
qed

lemma rnd53_nonneg:
  assumes "0 \<le> x"
  shows "0 \<le> rnd53 x"
proof (cases "x = 0")
  case True
  then show ?thesis by simp
next
  case False
  with assms have p: "0 < x" by simp
  then have "0 < x / pow2 (ilog2 x - 52)" by simp
  then have "of_int 0 - 1 / 2 < x / pow2 (ilog2 x - 52)" by linarith
  then have "0 \<le> round_even (x / pow2 (ilog2 x - 52))" by (rule round_even_ge)
  then show ?thesis by (simp add: rnd53_pos [OF p])
qed

lemma rnd53_ge_grid:
  assumes "0 < x" and "(of_int J - 1 / 2) * pow2 (ilog2 x - 52) < x"
  shows "of_int J * pow2 (ilog2 x - 52) \<le> rnd53 x"
proof -
  let ?u = "pow2 (ilog2 x - 52)"
  have "of_int J - 1 / 2 < x / ?u"
    using assms(2) by (simp add: pos_less_divide_eq)
  then have "J \<le> round_even (x / ?u)" by (rule round_even_ge)
  then have "(of_int J :: real) \<le> of_int (round_even (x / ?u))" by simp
  then have "of_int J * ?u \<le> of_int (round_even (x / ?u)) * ?u"
    by (intro mult_right_mono) simp_all
  then show ?thesis by (simp add: rnd53_pos [OF assms(1)])
qed

lemma rnd53_ge_nat:
  assumes "real m \<le> x" and "x < 2 ^ 53"
  shows "real m \<le> rnd53 x"
proof (cases "m = 0")
  case True
  with assms(1) show ?thesis by (simp add: rnd53_nonneg)
next
  case False
  with assms(1) have p: "0 < x" by simp
  obtain J where J: "real m = of_int J * pow2 (ilog2 x - 52)"
    using nat_on_grid [OF p assms(2)] by blast
  have u: "0 < pow2 (ilog2 x - 52) / 2" by simp
  have "(of_int J - 1 / 2) * pow2 (ilog2 x - 52) = real m - pow2 (ilog2 x - 52) / 2"
    using J by (simp add: algebra_simps)
  with assms(1) u have "(of_int J - 1 / 2) * pow2 (ilog2 x - 52) < x" by linarith
  from rnd53_ge_grid [OF p this] J show ?thesis by simp
qed

text \<open>Natural numbers below \<open>2\<^sup>5\<^sup>3\<close> are doubles.\<close>

lemma rnd53_of_nat:
  assumes "m < 2 ^ 53"
  shows "rnd53 (real m) = real m"
proof -
  have "real m < 2 ^ 53" using assms by (metis of_nat_less_iff of_nat_numeral of_nat_power)
  then have "real m \<le> rnd53 (real m)" by (intro rnd53_ge_nat) simp_all
  moreover have "rnd53 (real m) \<le> real m" using assms by (intro rnd53_le_nat) simp_all
  ultimately show ?thesis by simp
qed




section \<open>Properties of binary64 arithmetic\<close>

lemma round64_nonneg: "0 \<le> x \<Longrightarrow> nonneg64 (round64 x)"
proof (cases "x = 0")
  case True then show ?thesis by (simp add: round64_def nonneg64_def)
next
  case False
  assume "0 \<le> x"
  with False have x: "0 < x" by simp
  let ?u = "pow2 (max (ilog2 \<bar>x\<bar> - 52) (- 1074))"
  have "0 < \<bar>x\<bar> / ?u" using x by simp
  then have "of_int 0 - 1 / 2 < \<bar>x\<bar> / ?u" by simp
  then have "0 \<le> round_even (\<bar>x\<bar> / ?u)" by (rule round_even_ge)
  then have "0 \<le> (of_int (round_even (\<bar>x\<bar> / ?u)) :: real) * ?u" by simp
  then show ?thesis using x by (simp add: round64_def nonneg64_def Let_def)
qed

lemma round64_not_NaN [simp]: "round64 x \<noteq> NaN"
  by (simp add: round64_def Let_def)

lemma ilog2_nonneg: "1 \<le> x \<Longrightarrow> 0 \<le> ilog2 x"
  by (simp add: ilog2_def)

lemma round64_normal:
  assumes "1 \<le> x" and "x < 2 ^ 1023"
  shows "round64 x = Fin (rnd53 x)"
proof -
  have x: "0 < x" using assms(1) by simp
  have e: "max (ilog2 x - 52) (- 1074) = ilog2 x - 52"
    using ilog2_nonneg [OF assms(1)] by simp
  have r: "of_int (round_even (x / pow2 (ilog2 x - 52))) * pow2 (ilog2 x - 52) = rnd53 x"
    using rnd53_pos [OF x] by simp
  have "\<bar>rnd53 x - x\<bar> \<le> x / 2 ^ 53" using x by (rule rnd53_error)
  moreover have "x / 2 ^ 53 \<le> x" using x by (simp add: divide_le_eq)
  ultimately have "rnd53 x \<le> 2 * x" by linarith
  also have "\<dots> < 2 * 2 ^ 1023" using assms(2) by simp
  finally have b: "\<not> 2 ^ 1024 \<le> rnd53 x" by simp
  show ?thesis using x b by (simp add: round64_def Let_def e r)
qed

lemma round64_of_nat:
  assumes "m < 2 ^ 53"
  shows "round64 (real m) = Fin (real m)"
proof (cases "m = 0")
  case True then show ?thesis by (simp add: round64_def)
next
  case False
  then have a: "1 \<le> real m" by simp
  have "real m < 2 ^ 53" using assms by (metis of_nat_less_iff of_nat_numeral of_nat_power)
  also have "(2 :: real) ^ 53 < 2 ^ 1023" by simp
  finally have b: "real m < 2 ^ 1023" .
  show ?thesis using round64_normal [OF a b] rnd53_of_nat [OF assms] by simp
qed

lemma round64_overflow:
  assumes "2 ^ 1024 \<le> x"
  shows "round64 x = PInf"
proof -
  have x: "0 < x" using assms by (rule less_le_trans [rotated]) simp
  let ?e = "ilog2 x"
  have "pow2 1024 \<le> x" using assms by (simp add: pow2_def)
  also have "x < 2 * pow2 ?e" using x by (rule ilog2_spec)
  also have "\<dots> = pow2 (?e + 1)" by (simp add: pow2_Suc)
  finally have "pow2 1024 < pow2 (?e + 1)" .
  then have e: "1024 \<le> ?e"
    using pow2_mono [of "?e + 1" 1024] by (cases "1024 \<le> ?e") simp_all
  then have m: "max (?e - 52) (- 1074) = ?e - 52" by simp
  have p: "pow2 ?e = of_int (2 ^ 52) * pow2 (?e - 52)"
    using pow2_add_nat [of "?e - 52" 52] by simp
  have "(of_int (2 ^ 52) - 1 / 2) * pow2 (?e - 52) < of_int (2 ^ 52) * pow2 (?e - 52)"
    by (simp add: algebra_simps)
  also have "\<dots> \<le> x" using ilog2_spec(1) [OF x] p by simp
  finally have "of_int (2 ^ 52) * pow2 (?e - 52) \<le> rnd53 x"
    using x by (intro rnd53_ge_grid)
  then have "pow2 ?e \<le> rnd53 x" using p by simp
  moreover have "pow2 1024 \<le> pow2 ?e" using e by (rule pow2_mono)
  ultimately have "2 ^ 1024 \<le> rnd53 x" by (simp add: pow2_def)
  then have "2 ^ 1024 \<le> of_int (round_even (x / pow2 (?e - 52))) * pow2 (?e - 52)"
    using rnd53_pos [OF x] by simp
  then show ?thesis using x by (simp add: round64_def Let_def m)
qed

lemma plus64_NaN [simp]: "plus64 NaN b = NaN" "plus64 a NaN = NaN"
  by (cases a; simp add: plus64_def round_double_def)+

lemma plus64_nonneg:
  assumes "nonneg64 a" and "nonneg64 b"
  shows "nonneg64 (plus64 a b)"
proof (cases a)
  case (Fin x)
  then show ?thesis
    using assms by (cases b) (simp_all add: plus64_def round_double_def nonneg64_def [of "Fin _"]
      nonneg64_def [of PInf] nonneg64_def [of NInf] nonneg64_def [of NaN] round64_nonneg)
next
  case PInf
  then show ?thesis
    using assms by (cases b) (simp_all add: plus64_def round_double_def nonneg64_def)
qed (use assms in \<open>simp_all add: nonneg64_def\<close>)

lemma times64_self:
  "times64 NaN NaN = NaN" "v \<noteq> NaN \<Longrightarrow> nonneg64 (times64 v v)"
proof -
  show "times64 NaN NaN = NaN" by (simp add: times64_def round_double_def)
  assume "v \<noteq> NaN"
  then show "nonneg64 (times64 v v)"
    by (cases v) (simp_all add: times64_def round_double_def round64_nonneg,
      simp_all add: nonneg64_def)
qed

lemma fold_squares:
  assumes "nonneg64 b \<or> b = NaN"
  shows "(fold (\<lambda>v bias. plus64 bias (times64 v v)) vs b = NaN) = (b = NaN \<or> NaN \<in> set vs) \<and>
         (fold (\<lambda>v bias. plus64 bias (times64 v v)) vs b \<noteq> NaN \<longrightarrow>
            nonneg64 (fold (\<lambda>v bias. plus64 bias (times64 v v)) vs b))"
  using assms
proof (induction vs arbitrary: b)
  case Nil
  then show ?case by auto
next
  case (Cons v vs)
  show ?case
  proof (cases "b = NaN \<or> v = NaN")
    case True
    then have "plus64 b (times64 v v) = NaN" by (auto simp add: times64_self)
    with Cons.IH [of "plus64 b (times64 v v)"] True show ?thesis by auto
  next
    case False
    with Cons.prems have "nonneg64 (plus64 b (times64 v v))"
      by (intro plus64_nonneg times64_self) auto
    moreover from this have "plus64 b (times64 v v) \<noteq> NaN" by (auto simp add: nonneg64_def)
    ultimately show ?thesis using Cons.IH [of "plus64 b (times64 v v)"] False by auto
  qed
qed

lemma sum_of_squares_cases:
  "(sum_of_squares vs = NaN) = (NaN \<in> set vs)"
  "NaN \<notin> set vs \<Longrightarrow> nonneg64 (sum_of_squares vs)"
  using fold_squares [of "Fin 0" vs] by (simp_all add: sum_of_squares_def nonneg64_def)

lemma divide64_cases:
  assumes "0 < c"
  shows "divide64 NaN (Fin c) = NaN" and "nonneg64 a \<Longrightarrow> nonneg64 (divide64 a (Fin c))"
proof -
  show "divide64 NaN (Fin c) = NaN" by (simp add: divide64_def round_double_def)
  assume "nonneg64 a"
  then show "nonneg64 (divide64 a (Fin c))"
    using assms
    by (cases a) (simp_all add: divide64_def round_double_def nonneg64_def [of "Fin _"]
      nonneg64_def [of PInf] nonneg64_def [of NInf] nonneg64_def [of NaN] round64_nonneg)
qed

lemma minus64_NaN:
  assumes "nonneg64 a \<or> a = NaN" and "nonneg64 b \<or> b = NaN"
  shows "(minus64 a b = NaN) = (a = NaN \<or> b = NaN \<or> (a = PInf \<and> b = PInf))"
  using assms
  by (cases a; cases b) (simp_all add: minus64_def dneg_def round_double_def nonneg64_def)

section \<open>Properties of \<open>compute_debiased_error\<close>\<close>

lemma fold_debiased_error_step:
  "fold (debiased_error_step lv) ns (b, k) =
     (fold (\<lambda>v bias. plus64 bias (times64 v v))
        (map (\<lambda>n. pv_get lv n OUTCOME) (filter (\<lambda>n. \<not> pv_empty lv n) ns)) b,
      k + length (filter (\<lambda>n. \<not> pv_empty lv n) ns))"
  by (induction ns arbitrary: b k) (simp_all add: debiased_error_step_def Let_def)

lemma compute_debiased_error_eq:
  "compute_debiased_error sample lv obs =
     (if length (nonempty_trees lv) \<le> 1 then [NaN]
      else [minus64
              (times64 (dobs_get obs (dobs_OUTCOME obs) sample) (dobs_get obs (dobs_OUTCOME obs) sample))
              (divide64 (sum_of_squares (tree_values lv))
                 (of_size64 ((length (nonempty_trees lv) * (length (nonempty_trees lv) - 1)) mod 2 ^ 64)))])"
  by (simp add: compute_debiased_error_def fold_debiased_error_step nonempty_trees_def
      tree_values_def sum_of_squares_def Let_def)

lemma num_trees_product:
  assumes "k < (2 :: nat) ^ 32" and "1 < k"
  shows "(k * (k - 1)) mod 2 ^ 64 = k * (k - 1)" and "\<exists>c. 0 < c \<and> of_size64 (k * (k - 1)) = Fin c"
proof -
  define m where "m = k * (k - 1)"
  have "k * (k - 1) < 2 ^ 32 * 2 ^ 32"
    using assms by (intro mult_strict_mono) simp_all
  then have b: "m < 2 ^ 64" by (simp add: m_def)
  then show "(k * (k - 1)) mod 2 ^ 64 = k * (k - 1)" by (simp add: m_def)
  have p: "1 \<le> m" using assms(2) by (cases k) (auto simp add: m_def)
  then have a: "1 \<le> real m" by (metis of_nat_1 of_nat_le_iff)
  have "real m < 2 ^ 64" using b by (metis of_nat_less_iff of_nat_numeral of_nat_power)
  also have "(2 :: real) ^ 64 < 2 ^ 1023" by simp
  finally have c: "real m < 2 ^ 1023" .
  have pos: "0 < real m" using a by linarith
  then have "\<bar>rnd53 (real m) - real m\<bar> \<le> real m / 2 ^ 53"
    by (rule rnd53_error)
  moreover have "real m / 2 ^ 53 < real m"
    using pos by (simp add: divide_less_eq)
  ultimately have "0 < rnd53 (real m)" by linarith
  then have "\<exists>c. 0 < c \<and> of_size64 m = Fin c"
    using round64_normal [OF a c] by (simp add: of_size64_def)
  then show "\<exists>c. 0 < c \<and> of_size64 (k * (k - 1)) = Fin c" by (simp add: m_def)
qed

text \<open>
  C10. \<open>compute_debiased_error\<close> returns NaN whenever at most one tree has a leaf value
  that is not empty. With two or more such trees (and fewer than \<open>2\<^sup>3\<^sup>2\<close> nodes) it returns, in
  double arithmetic, the square of the outcome minus the sum of the squared leaf values of
  those trees divided by \<open>num_trees * (num_trees - 1)\<close>, where \<open>num_trees\<close> counts those trees
  only. That value is NaN as well exactly when the outcome or one of those leaf values is
  NaN, or when the square of the outcome and the quotient are both \<open>+\<infinity>\<close>.
\<close>

theorem compute_debiased_error_value:
  assumes "get_num_nodes lv < 2 ^ 32"
  shows "compute_debiased_error sample lv obs =
     (if length (nonempty_trees lv) \<le> 1 then [NaN]
      else [minus64
              (times64 (dobs_get obs (dobs_OUTCOME obs) sample) (dobs_get obs (dobs_OUTCOME obs) sample))
              (divide64 (sum_of_squares (tree_values lv))
                 (of_size64 (length (nonempty_trees lv) * (length (nonempty_trees lv) - 1))))]) \<and>
    ((compute_debiased_error sample lv obs = [NaN]) =
       (length (nonempty_trees lv) \<le> 1 \<or>
        dobs_get obs (dobs_OUTCOME obs) sample = NaN \<or>
        NaN \<in> set (tree_values lv) \<or>
        (times64 (dobs_get obs (dobs_OUTCOME obs) sample) (dobs_get obs (dobs_OUTCOME obs) sample) = PInf \<and>
         divide64 (sum_of_squares (tree_values lv))
           (of_size64 (length (nonempty_trees lv) * (length (nonempty_trees lv) - 1))) = PInf)))"
proof (cases "length (nonempty_trees lv) \<le> 1")
  case True
  then show ?thesis by (simp add: compute_debiased_error_eq)
next
  case False
  define k where "k = length (nonempty_trees lv)"
  define y where "y = dobs_get obs (dobs_OUTCOME obs) sample"
  define S where "S = sum_of_squares (tree_values lv)"
  have "k \<le> length [0..<get_num_nodes lv]"
    unfolding k_def nonempty_trees_def by (rule length_filter_le)
  with assms have k: "k < 2 ^ 32" "1 < k" using False by (simp_all add: k_def)
  from num_trees_product [OF k] obtain c where
    m: "(k * (k - 1)) mod 2 ^ 64 = k * (k - 1)" and c: "0 < c" "of_size64 (k * (k - 1)) = Fin c"
    by blast
  have eq: "compute_debiased_error sample lv obs = [minus64 (times64 y y) (divide64 S (Fin c))]"
    using False m c(2) by (simp add: compute_debiased_error_eq k_def y_def S_def)
  have q: "(divide64 S (Fin c) = NaN) = (NaN \<in> set (tree_values lv))"
    "nonneg64 (divide64 S (Fin c)) \<or> divide64 S (Fin c) = NaN"
  proof -
    show "(divide64 S (Fin c) = NaN) = (NaN \<in> set (tree_values lv))"
    proof (cases "NaN \<in> set (tree_values lv)")
      case True
      then show ?thesis using divide64_cases(1) [OF c(1)] sum_of_squares_cases(1) [of "tree_values lv"]
        by (simp add: S_def)
    next
      case False
      then have "nonneg64 (divide64 S (Fin c))"
        unfolding S_def by (intro divide64_cases(2) [OF c(1)] sum_of_squares_cases(2))
      then show ?thesis using False by (auto simp add: nonneg64_def)
    qed
    then show "nonneg64 (divide64 S (Fin c)) \<or> divide64 S (Fin c) = NaN"
      using divide64_cases(2) [OF c(1)] sum_of_squares_cases(2) [of "tree_values lv"]
      by (auto simp add: S_def)
  qed
  have t: "nonneg64 (times64 y y) \<or> times64 y y = NaN" "(times64 y y = NaN) = (y = NaN)"
  proof -
    show "nonneg64 (times64 y y) \<or> times64 y y = NaN"
      using times64_self(1) times64_self(2) [of y] by (cases "y = NaN") simp_all
    show "(times64 y y = NaN) = (y = NaN)"
      using times64_self(1) times64_self(2) [of y] by (cases "y = NaN") (auto simp add: nonneg64_def)
  qed
  have "(minus64 (times64 y y) (divide64 S (Fin c)) = NaN) =
    (y = NaN \<or> NaN \<in> set (tree_values lv) \<or> (times64 y y = PInf \<and> divide64 S (Fin c) = PInf))"
    using minus64_NaN [OF t(1) q(2)] t(2) q(1) by simp
  then show ?thesis
    using False eq c(2) by (simp add: k_def [symmetric] y_def [symmetric] S_def [symmetric])
qed

text \<open>
  C10, the claim as it stands: NaN is returned only if at most one tree has a leaf value
  that is not empty. With an outcome and two leaf values of \<open>2\<^sup>6\<^sup>0\<^sup>0\<close> the squares overflow,
  and the result \<open>\<infinity> - \<infinity>\<close> is NaN although two trees count.
\<close>

theorem compute_debiased_error_overflow:
  "length (nonempty_trees ex_large_leaf_values) = 2 \<and>
   compute_debiased_error 0 ex_large_leaf_values ex_large_outcomes = [NaN]"
proof -
  have n: "nonempty_trees ex_large_leaf_values = [0, 2]"
    by (simp add: nonempty_trees_def ex_large_leaf_values_def upt_rec)
  have "(2 :: real) ^ 1024 \<le> 2 ^ 600 * 2 ^ 600" by simp
  then have sq: "times64 (Fin (2 ^ 600)) (Fin (2 ^ 600)) = PInf"
    by (simp only: times64_def dtimes.simps round_double_def double.case round64_overflow)
  have tv: "tree_values ex_large_leaf_values = [Fin (2 ^ 600), Fin (2 ^ 600)]"
    unfolding tree_values_def n by (simp add: ex_large_leaf_values_def)
  have s: "sum_of_squares (tree_values ex_large_leaf_values) = PInf"
    unfolding tv sum_of_squares_def fold_simps sq
    by (simp add: plus64_def round_double_def)
  have "round64 2 = Fin 2" using round64_of_nat [of 2] by simp
  then have d: "of_size64 (Suc (Suc 0) mod 2 ^ 64) = Fin 2" by (simp add: of_size64_def)
  have "compute_debiased_error 0 ex_large_leaf_values ex_large_outcomes =
    [minus64 (times64 (Fin (2 ^ 600)) (Fin (2 ^ 600))) (divide64 PInf (Fin 2))]"
    by (simp add: compute_debiased_error_eq n s d ex_large_outcomes_def del: power_numeral)
  then have "compute_debiased_error 0 ex_large_leaf_values ex_large_outcomes =
    [minus64 PInf (divide64 PInf (Fin 2))]"
    unfolding sq .
  then show ?thesis
    using n by (simp add: minus64_def divide64_def dneg_def round_double_def)
qed

text \<open>
  C10 at leaf values \<open>1\<close>, empty, \<open>2\<close> and outcome \<open>2\<close>: \<open>4 - (1 + 4) / 2\<close>; and with the
  first two trees only, of which one counts.
\<close>

theorem compute_debiased_error_value_witness:
  "get_num_nodes ex_leaf_values < 2 ^ 32 \<and>
   nonempty_trees ex_leaf_values = [0, 2] \<and>
   compute_debiased_error 0 ex_leaf_values ex_outcomes = [Fin (3 / 2)] \<and>
   compute_debiased_error 0 (ex_leaf_values\<lparr>get_num_nodes := 2\<rparr>) ex_outcomes = [NaN]"
proof -
  have b: "get_num_nodes ex_leaf_values < 2 ^ 32"
    "get_num_nodes (ex_leaf_values\<lparr>get_num_nodes := 2\<rparr>) < 2 ^ 32"
    by (simp_all add: ex_leaf_values_def)
  have n: "nonempty_trees ex_leaf_values = [0, 2]"
    "nonempty_trees (ex_leaf_values\<lparr>get_num_nodes := 2\<rparr>) = [0]"
    by (simp_all add: nonempty_trees_def ex_leaf_values_def upt_rec)
  have r: "round64 1 = Fin 1" "round64 4 = Fin 4" "round64 5 = Fin 5" "round64 2 = Fin 2"
    using round64_of_nat [of 1] round64_of_nat [of 4] round64_of_nat [of 5] round64_of_nat [of 2]
    by simp_all
  have h: "rnd53 (5 / 2) = 5 / 2" "rnd53 (3 / 2) = 3 / 2" by code_simp+
  have q: "round64 (5 / 2) = Fin (5 / 2)" "round64 (3 / 2) = Fin (3 / 2)"
    using round64_normal [of "5 / 2"] round64_normal [of "3 / 2"] h by simp_all
  have tv: "tree_values ex_leaf_values = [Fin 1, Fin 2]"
    unfolding tree_values_def n by (simp add: ex_leaf_values_def)
  have s: "sum_of_squares (tree_values ex_leaf_values) = Fin 5"
    unfolding tv sum_of_squares_def fold_simps
    by (simp add: plus64_def times64_def round_double_def r)
  have v: "minus64 (times64 (Fin 2) (Fin 2)) (divide64 (Fin 5) (of_size64 (Suc (Suc 0)))) = Fin (3 / 2)"
    by (simp add: minus64_def times64_def divide64_def of_size64_def dneg_def round_double_def r q)
  have c1: "compute_debiased_error 0 ex_leaf_values ex_outcomes = [Fin (3 / 2)]"
    using compute_debiased_error_value [OF b(1), of 0 ex_outcomes]
    by (simp add: n s v ex_outcomes_def)
  have c2: "compute_debiased_error 0 (ex_leaf_values\<lparr>get_num_nodes := 2\<rparr>) ex_outcomes = [NaN]"
    using compute_debiased_error_value [OF b(2), of 0 ex_outcomes]
    by (simp add: n)
  show ?thesis using b(1) n(1) c1 c2 by simp
qed

section \<open>Properties of \<open>RandomSampler\<close>\<close>

lemma real_lt_2_32: "n < 2 ^ 32 \<Longrightarrow> real n < 2 ^ 32"
  by (metis of_nat_less_iff of_nat_numeral of_nat_power)

lemma to_double_exact: "n < 2 ^ 53 \<Longrightarrow> to_double n = Fin (real n)"
  by (simp add: to_double_def rnd53_of_nat)

text \<open>\<open>subsample\<close> for a fraction between zero and one.\<close>

lemma subsample_fraction:
  assumes lib: "std_library ops" and f: "0 \<le> f" "f \<le> 1" and n: "length pool < 2 ^ 32"
  shows "nat \<lceil>rnd53 (real (length pool) * f)\<rceil> \<le> length pool"
    and "subsample ops pool (Fin f) g =
      Inr (take (nat \<lceil>rnd53 (real (length pool) * f)\<rceil>) (fst (rng_shuffle ops pool g)),
           drop (nat \<lceil>rnd53 (real (length pool) * f)\<rceil>) (fst (rng_shuffle ops pool g)),
           snd (rng_shuffle ops pool g))"
proof -
  let ?n = "length pool"
  let ?p = "rnd53 (real ?n * f)"
  let ?k = "nat \<lceil>?p\<rceil>"
  have n53: "?n < 2 ^ 53" using n by simp
  have p0: "0 \<le> ?p" using f(1) by (intro rnd53_nonneg) simp
  have "real ?n * f \<le> real ?n * 1" using f(2) by (intro mult_left_mono) simp_all
  then have pn: "?p \<le> real ?n" using f(1) n53 by (intro rnd53_le_nat) simp_all
  then have ci: "\<lceil>?p\<rceil> \<le> int ?n" by (simp add: ceiling_le_iff)
  then show kn: "?k \<le> ?n" by (simp only: nat_le_iff)
  have c0: "0 \<le> \<lceil>?p\<rceil>" using p0 by (simp add: le_ceiling_iff)
  have c32: "real_of_int \<lceil>?p\<rceil> < 2 ^ 32"
  proof -
    from ci have "real_of_int \<lceil>?p\<rceil> \<le> real_of_int (int ?n)" by (simp only: of_int_le_iff)
    then have "real_of_int \<lceil>?p\<rceil> \<le> real ?n" by simp
    with real_lt_2_32 [OF n] show ?thesis by linarith
  qed
  from c0 have "0 \<le> real_of_int \<lceil>?p\<rceil>" by (simp only: of_int_0_le_iff)
  then have cm: "- 1 < real_of_int \<lceil>?p\<rceil>" by linarith
  have "real ?n \<le> 4294967295" using n by simp
  with pn have p32: "?p \<le> 4294967295" by linarith
  have u: "to_uint (dceil (fl_times (to_double ?n) (Fin f))) = Inr ?k"
    by (simp add: to_double_exact [OF n53] fl_times_def fl_def dceil_def to_uint_def cm p32)
  have "(2 ^ 64 + ?n - ?k) mod 2 ^ 64 = ?n - ?k"
  proof -
    have "(2 :: nat) ^ 64 + ?n - ?k = 2 ^ 64 + (?n - ?k)" using kn by simp
    moreover have "?n - ?k < (2 :: nat) ^ 64" using n by simp
    ultimately show ?thesis by simp
  qed
  moreover have "\<not> vector_max_size < ?n - ?k"
    using n by (simp add: vector_max_size_def)
  ultimately show "subsample ops pool (Fin f) g =
      Inr (take ?k (fst (rng_shuffle ops pool g)), drop ?k (fst (rng_shuffle ops pool g)),
           snd (rng_shuffle ops pool g))"
    by (simp add: subsample_def u split_beta Let_def)
qed

lemma shuffle_length: "std_library ops \<Longrightarrow> length (fst (rng_shuffle ops xs g)) = length xs"
  by (metis std_library_def size_mset)

text \<open>
  C7. For a pool of fewer than \<open>2\<^sup>3\<^sup>2\<close> rows and a fraction in \<open>[0, 1]\<close>, the \<open>subsample\<close>
  with two outputs returns an in-set of size \<open>ceil(|pool| \<otimes> fraction)\<close>, where \<open>\<otimes>\<close> is the
  product of doubles (the exact product rounded to the nearest double), and an out-set of
  the remaining \<open>|pool| - ceil(|pool| \<otimes> fraction)\<close> rows. The in-set followed by the
  out-set is the shuffled pool, so the two outputs are a split of a permutation of the
  pool into a prefix and the remainder, and their multiset union is the pool.
\<close>

theorem subsample_split:
  assumes "std_library ops" and "0 \<le> f" and "f \<le> 1" and "length pool < 2 ^ 32"
  shows "\<exists>ins outs g'.
     subsample ops pool (Fin f) g = Inr (ins, outs, g') \<and>
     length ins = nat \<lceil>rnd53 (real (length pool) * f)\<rceil> \<and>
     length outs = length pool - nat \<lceil>rnd53 (real (length pool) * f)\<rceil> \<and>
     length ins + length outs = length pool \<and>
     mset ins + mset outs = mset pool \<and>
     ins @ outs = fst (rng_shuffle ops pool g)"
proof -
  let ?k = "nat \<lceil>rnd53 (real (length pool) * f)\<rceil>"
  let ?sh = "fst (rng_shuffle ops pool g)"
  note s = subsample_fraction [OF assms]
  have l: "length ?sh = length pool" by (rule shuffle_length [OF assms(1)])
  have m: "mset ?sh = mset pool" using assms(1) by (simp add: std_library_def)
  have "mset (take ?k ?sh) + mset (drop ?k ?sh) = mset ?sh"
    by (metis append_take_drop_id mset_append)
  with s(1) l m show ?thesis by (intro exI conjI) (rule s(2) [of g], simp_all)
qed

lemma std_library_ex_rng: "std_library ex_rng"
proof -
  have "a + g mod (b - a + 1) \<le> b" if "a \<le> b" for a b g :: nat
  proof -
    have "g mod (b - a + 1) < b - a + 1" by (intro mod_less_divisor) simp
    with that show ?thesis by linarith
  qed
  then show ?thesis by (simp add: std_library_def ex_rng_def)
qed

lemma ex_tenth_double: "rnd53 (1 / 10) = ex_tenth" "rnd53 (3 / 10) = ex_three_tenths"
  by code_simp+

text \<open>
  C7, the claim as it stands: the in-set has \<open>ceil(|pool| * fraction)\<close> rows. For a pool of
  ten rows and the fraction \<open>0.1\<close>, a double slightly above \<open>1/10\<close>, the exact product is
  above \<open>1\<close> and its ceiling is \<open>2\<close>; the product of doubles is \<open>1\<close> and the in-set has one
  row.
\<close>

theorem subsample_tenth_of_ten:
  "0 \<le> ex_tenth \<and> ex_tenth \<le> 1 \<and>
   subsample ex_rng [0, 1, 2, 3, 4, 5, 6, 7, 8, 9] (Fin ex_tenth) 0 =
     Inr ([9], [8, 7, 6, 5, 4, 3, 2, 1, 0], 1) \<and>
   nat \<lceil>real (length [0, 1, 2, 3, 4, 5, 6, 7, 8, 9 :: nat]) * ex_tenth\<rceil> = 2"
proof -
  have u: "to_uint (dceil (fl_times (to_double (length [0, 1, 2, 3, 4, 5, 6, 7, 8, 9 :: nat]))
      (Fin ex_tenth))) = Inr 1"
    by code_simp
  have e: "subsample ex_rng [0, 1, 2, 3, 4, 5, 6, 7, 8, 9] (Fin ex_tenth) 0 =
     Inr ([9], [8, 7, 6, 5, 4, 3, 2, 1, 0], 1)"
    unfolding subsample_def u by (simp add: ex_rng_def vector_max_size_def)
  have c: "nat \<lceil>real (length [0, 1, 2, 3, 4, 5, 6, 7, 8, 9 :: nat]) * ex_tenth\<rceil> = 2"
    by code_simp
  have "0 \<le> ex_tenth" "ex_tenth \<le> 1" by (simp_all add: ex_tenth_def)
  with e c show ?thesis by blast
qed

text \<open>
  C7 at a pool of four rows and the fraction \<open>0.3\<close>: the product is \<open>1.2\<close>, the in-set has
  two rows.
\<close>

theorem subsample_split_witness:
  "std_library ex_rng \<and> 0 \<le> ex_three_tenths \<and> ex_three_tenths \<le> 1 \<and>
   length [10, 20, 30, 40 :: nat] < 2 ^ 32 \<and>
   subsample ex_rng [10, 20, 30, 40] (Fin ex_three_tenths) 0 = Inr ([40, 30], [20, 10], 1) \<and>
   length [40, 30 :: nat] = nat \<lceil>rnd53 (real (length [10, 20, 30, 40 :: nat]) * ex_three_tenths)\<rceil> \<and>
   \<lfloor>rnd53 (real (length [10, 20, 30, 40 :: nat]) * ex_three_tenths)\<rfloor> = 1 \<and>
   mset [40, 30] + mset [20, 10] = mset [10, 20, 30, 40 :: nat]"
proof -
  have h: "0 \<le> ex_three_tenths" "ex_three_tenths \<le> 1" "length [10, 20, 30, 40 :: nat] < 2 ^ 32"
    by (simp_all add: ex_three_tenths_def)
  have u: "to_uint (dceil (fl_times (to_double (length [10, 20, 30, 40 :: nat])) (Fin ex_three_tenths)))
      = Inr 2"
    by code_simp
  have e: "subsample ex_rng [10, 20, 30, 40] (Fin ex_three_tenths) 0 = Inr ([40, 30], [20, 10], 1)"
    unfolding subsample_def u by (simp add: ex_rng_def vector_max_size_def)
  have fl: "\<lfloor>rnd53 (real (length [10, 20, 30, 40 :: nat]) * ex_three_tenths)\<rfloor> = 1"
    by code_simp
  obtain ins outs g' where
    s: "subsample ex_rng [10, 20, 30, 40] (Fin ex_three_tenths) 0 = Inr (ins, outs, g')"
    and l: "length ins = nat \<lceil>rnd53 (real (length [10, 20, 30, 40 :: nat]) * ex_three_tenths)\<rceil>"
    and m: "mset ins + mset outs = mset [10, 20, 30, 40]"
    using subsample_split [OF std_library_ex_rng h, of 0] by blast
  from s e have i: "ins = [40, 30]" "outs = [20, 10]" by simp_all
  from l m show ?thesis unfolding i using e h fl std_library_ex_rng by blast
qed
lemma rows_per_cluster_eq:
  assumes "n < 2 ^ 32" and "k < 2 ^ 32"
  shows "rows_per_cluster k n = nat \<lceil>rnd53 (real n * rnd53 (real k / real n))\<rceil>"
proof -
  from assms have "n < 2 ^ 53" "k < 2 ^ 53" by simp_all
  then show ?thesis by (simp add: rows_per_cluster_def rnd53_of_nat)
qed

lemma cluster_fraction:
  assumes "1 \<le> n" and "n < 2 ^ 32" and "k \<le> n"
  shows "fl_divide (to_double k) (to_double n) = Fin (rnd53 (real k / real n))"
    and "0 \<le> rnd53 (real k / real n)" and "rnd53 (real k / real n) \<le> 1"
proof -
  from assms have "n < 2 ^ 53" "k < 2 ^ 53" by simp_all
  with assms(1) show "fl_divide (to_double k) (to_double n) = Fin (rnd53 (real k / real n))"
    by (simp add: to_double_exact fl_divide_def fl_def)
  show "0 \<le> rnd53 (real k / real n)" by (intro rnd53_nonneg) simp
  have "real k / real n \<le> real (1 :: nat)" using assms(1,3) by simp
  then have "rnd53 (real k / real n) \<le> real (1 :: nat)" by (intro rnd53_le_nat) simp_all
  then show "rnd53 (real k / real n) \<le> 1" by simp
qed

text \<open>The rounded product \<open>n * (k / n)\<close> is within one of \<open>k\<close>, on either side.\<close>

lemma cluster_product_near:
  assumes "1 \<le> n" and "1 \<le> k" and "k < 2 ^ 32"
  shows "real k - 1 < rnd53 (real n * rnd53 (real k / real n))"
    and "rnd53 (real n * rnd53 (real k / real n)) < real k + 1"
proof -
  let ?q = "real k / real n"
  let ?f = "rnd53 ?q"
  let ?x = "real n * ?f"
  let ?p = "rnd53 ?x"
  define a where "a = real k / 2 ^ 53"
  have n0: "0 < real n" using assms(1) by simp
  have q0: "0 < ?q" using assms(1,2) by simp
  have "real k < 2 ^ 32" by (rule real_lt_2_32 [OF assms(3)])
  then have a1: "a < 1 / 4" by (simp add: a_def)
  have a0: "0 < a" using assms(2) by (simp add: a_def)
  have nq: "real n * ?q = real k" using n0 by simp
  have "\<bar>?f - ?q\<bar> \<le> ?q / 2 ^ 53" by (rule rnd53_error [OF q0])
  then have "real n * \<bar>?f - ?q\<bar> \<le> real n * (?q / 2 ^ 53)"
    by (intro mult_left_mono) simp_all
  moreover have "real n * \<bar>?f - ?q\<bar> = \<bar>?x - real k\<bar>"
  proof -
    have "real n * (?f - ?q) = ?x - real k" using nq by (simp only: right_diff_distrib)
    then have "\<bar>?x - real k\<bar> = \<bar>real n\<bar> * \<bar>?f - ?q\<bar>"
      by (simp only: abs_mult [symmetric])
    then show ?thesis by simp
  qed
  moreover have "real n * (?q / 2 ^ 53) = a" using n0 by (simp add: a_def)
  ultimately have xe: "\<bar>?x - real k\<bar> \<le> a" by simp
  have "real k \<ge> 1" using assms(2) by simp
  with xe a1 have x0: "0 < ?x" by linarith
  have pe: "\<bar>?p - ?x\<bar> \<le> ?x / 2 ^ 53" by (rule rnd53_error [OF x0])
  have "?x \<le> real k + a" using xe by linarith
  then have "?x / 2 ^ 53 \<le> (real k + a) / 2 ^ 53" by (simp add: divide_right_mono)
  also have "\<dots> = a + a / 2 ^ 53" by (simp add: a_def add_divide_distrib)
  also have "\<dots> \<le> a + a" using a0 by (simp add: field_simps)
  finally have "?x / 2 ^ 53 \<le> a + a" .
  with pe xe a1 show "real k - 1 < ?p" and "?p < real k + 1" by linarith+
qed

lemma rows_per_cluster_bounds:
  assumes "1 \<le> n" and "n < 2 ^ 32" and "k < 2 ^ 32"
  shows "k \<le> rows_per_cluster k n" and "rows_per_cluster k n \<le> k + 1"
proof -
  let ?p = "rnd53 (real n * rnd53 (real k / real n))"
  have r: "rows_per_cluster k n = nat \<lceil>?p\<rceil>" by (rule rows_per_cluster_eq [OF assms(2,3)])
  have "k \<le> nat \<lceil>?p\<rceil> \<and> nat \<lceil>?p\<rceil> \<le> k + 1"
  proof (cases "k = 0")
    case True
    then show ?thesis by simp
  next
    case False
    then have "1 \<le> k" by simp
    note b = cluster_product_near [OF assms(1) this assms(3)]
    from b(1) have "real_of_int (int k - 1) < ?p" by simp
    then have "int k - 1 < \<lceil>?p\<rceil>" by (simp only: less_ceiling_iff)
    moreover from b(2) have "?p \<le> real_of_int (int k + 1)" by simp
    then have "\<lceil>?p\<rceil> \<le> int k + 1" by (simp only: ceiling_le_iff)
    ultimately show ?thesis by linarith
  qed
  with r show "k \<le> rows_per_cluster k n" and "rows_per_cluster k n \<le> k + 1" by simp_all
qed

lemma rows_per_cluster_exact:
  assumes "1 \<le> n" and "n < 2 ^ 32" and "k < 2 ^ 32"
    and "rnd53 (real n * rnd53 (real k / real n)) \<le> real k"
  shows "rows_per_cluster k n = k"
proof -
  let ?p = "rnd53 (real n * rnd53 (real k / real n))"
  from assms(4) have "?p \<le> real_of_int (int k)" by simp
  then have "\<lceil>?p\<rceil> \<le> int k" by (simp only: ceiling_le_iff)
  then have "nat \<lceil>?p\<rceil> \<le> k" by (simp only: nat_le_iff)
  with rows_per_cluster_bounds(1) [OF assms(1-3)] rows_per_cluster_eq [OF assms(2,3)]
  show ?thesis by simp
qed

text \<open>One round of \<open>sample_from_clusters\<close>, for a cluster that is large enough.\<close>

lemma subsample_cluster:
  assumes lib: "std_library ops" and n: "1 \<le> length cluster" "length cluster < 2 ^ 32"
    and k: "k \<le> length cluster"
  shows "rows_per_cluster k (length cluster) \<le> length cluster"
    and "subsample ops cluster (fl_divide (to_double k) (to_double (length cluster))) g =
      Inr (take (rows_per_cluster k (length cluster)) (fst (rng_shuffle ops cluster g)),
           drop (rows_per_cluster k (length cluster)) (fst (rng_shuffle ops cluster g)),
           snd (rng_shuffle ops cluster g))"
proof -
  from k n(2) have k32: "k < 2 ^ 32" by simp
  note f = cluster_fraction [OF n k]
  note s = subsample_fraction [OF lib f(2,3) n(2)]
  note r = rows_per_cluster_eq [OF n(2) k32]
  from s(1) r show "rows_per_cluster k (length cluster) \<le> length cluster" by simp
  from s(2) [of g] show "subsample ops cluster (fl_divide (to_double k) (to_double (length cluster))) g =
      Inr (take (rows_per_cluster k (length cluster)) (fst (rng_shuffle ops cluster g)),
           drop (rows_per_cluster k (length cluster)) (fst (rng_shuffle ops cluster g)),
           snd (rng_shuffle ops cluster g))"
    unfolding f(1) r .
qed

lemma cluster_product_eq:
  assumes "1 \<le> n" and "n < 2 ^ 32" and "k \<le> n"
  shows "cluster_product k n = Fin (rnd53 (real n * rnd53 (real k / real n)))"
    and "to_double k = Fin (real k)"
proof -
  from assms have b: "n < 2 ^ 53" "k < 2 ^ 53" by simp_all
  show "cluster_product k n = Fin (rnd53 (real n * rnd53 (real k / real n)))"
    unfolding cluster_product_def cluster_fraction(1) [OF assms]
    by (simp add: to_double_exact [OF b(1)] fl_times_def fl_def)
  show "to_double k = Fin (real k)" by (rule to_double_exact [OF b(2)])
qed

lemma sample_from_clusters_all2:
  assumes lib: "std_library ops"
  shows "\<forall>c \<in> set cluster_samples.
       1 \<le> length (get_cluster_map options (c mod 2 ^ 32)) \<and>
       length (get_cluster_map options (c mod 2 ^ 32)) < 2 ^ 32 \<and>
       get_samples_per_cluster options \<le> length (get_cluster_map options (c mod 2 ^ 32)) \<Longrightarrow>
     \<exists>draws g'.
       sample_from_clusters ops options cluster_samples samples g = Inr (samples @ concat draws, g') \<and>
       list_all2 (\<lambda>c d. \<exists>gi.
           d = take (rows_per_cluster (get_samples_per_cluster options)
                  (length (get_cluster_map options (c mod 2 ^ 32))))
                 (fst (rng_shuffle ops (get_cluster_map options (c mod 2 ^ 32)) gi)))
         cluster_samples draws"
proof (induction cluster_samples arbitrary: samples g)
  case Nil
  then show ?case by simp
next
  case (Cons c cs)
  let ?cl = "get_cluster_map options (c mod 2 ^ 32)"
  let ?k = "rows_per_cluster (get_samples_per_cluster options) (length ?cl)"
  let ?sh = "fst (rng_shuffle ops ?cl g)"
  from Cons.prems have h: "1 \<le> length ?cl" "length ?cl < 2 ^ 32"
    "get_samples_per_cluster options \<le> length ?cl"
    by simp_all
  note s = subsample_cluster(2) [OF lib h, of g]
  from Cons.prems have "\<forall>c \<in> set cs.
       1 \<le> length (get_cluster_map options (c mod 2 ^ 32)) \<and>
       length (get_cluster_map options (c mod 2 ^ 32)) < 2 ^ 32 \<and>
       get_samples_per_cluster options \<le> length (get_cluster_map options (c mod 2 ^ 32))"
    by simp
  from Cons.IH [OF this, of "samples @ take ?k ?sh" "snd (rng_shuffle ops ?cl g)"]
  obtain draws g' where
    r: "sample_from_clusters ops options cs (samples @ take ?k ?sh) (snd (rng_shuffle ops ?cl g))
        = Inr ((samples @ take ?k ?sh) @ concat draws, g')"
    and a: "list_all2 (\<lambda>c d. \<exists>gi.
           d = take (rows_per_cluster (get_samples_per_cluster options)
                  (length (get_cluster_map options (c mod 2 ^ 32))))
                 (fst (rng_shuffle ops (get_cluster_map options (c mod 2 ^ 32)) gi)))
         cs draws"
    by blast
  have "sample_from_clusters ops options (c # cs) samples g
      = Inr (samples @ concat (take ?k ?sh # draws), g')"
    unfolding sample_from_clusters.simps Let_def s sum.case prod.case using r by simp
  moreover have "list_all2 (\<lambda>c d. \<exists>gi.
           d = take (rows_per_cluster (get_samples_per_cluster options)
                  (length (get_cluster_map options (c mod 2 ^ 32))))
                 (fst (rng_shuffle ops (get_cluster_map options (c mod 2 ^ 32)) gi)))
         (c # cs) (take ?k ?sh # draws)"
    using a by auto
  ultimately show ?case by blast
qed

lemma mset_take_subset: "mset xs = mset ys \<Longrightarrow> mset (take k xs) \<subseteq># mset ys"
  by (metis append_take_drop_id mset_append mset_subset_eq_add_left)

text \<open>
  C2. When every selected cluster (the cluster id is taken modulo \<open>2\<^sup>3\<^sup>2\<close>, the key being a
  \<open>uint\<close>) has at least \<open>samples_per_cluster\<close> rows, at least one and fewer than \<open>2\<^sup>3\<^sup>2\<close>, and
  the double product \<open>|cluster| * (samples_per_cluster / |cluster|)\<close> is not above
  \<open>samples_per_cluster\<close>, \<open>sample_from_clusters\<close> returns the rows it was given followed by
  one draw per selected cluster, in cluster order. Each draw is the first
  \<open>samples_per_cluster\<close> rows of a shuffle of its cluster: exactly \<open>samples_per_cluster\<close> rows,
  all of that cluster.
\<close>

theorem sample_from_clusters_exact_rows:
  assumes "std_library ops"
    and "\<forall>c \<in> set cluster_samples.
       1 \<le> length (get_cluster_map options (c mod 2 ^ 32)) \<and>
       length (get_cluster_map options (c mod 2 ^ 32)) < 2 ^ 32 \<and>
       get_samples_per_cluster options \<le> length (get_cluster_map options (c mod 2 ^ 32)) \<and>
       dle (cluster_product (get_samples_per_cluster options)
              (length (get_cluster_map options (c mod 2 ^ 32))))
           (to_double (get_samples_per_cluster options))"
  shows "\<exists>draws g'.
     sample_from_clusters ops options cluster_samples samples g = Inr (samples @ concat draws, g') \<and>
     length draws = length cluster_samples \<and>
     (\<forall>i < length cluster_samples.
        length (draws ! i) = get_samples_per_cluster options \<and>
        mset (draws ! i) \<subseteq># mset (get_cluster_map options (cluster_samples ! i mod 2 ^ 32)) \<and>
        (\<exists>gi. draws ! i =
           take (get_samples_per_cluster options)
             (fst (rng_shuffle ops (get_cluster_map options (cluster_samples ! i mod 2 ^ 32)) gi))))"
proof -
  let ?spc = "get_samples_per_cluster options"
  from assms(2) have large: "\<forall>c \<in> set cluster_samples.
       1 \<le> length (get_cluster_map options (c mod 2 ^ 32)) \<and>
       length (get_cluster_map options (c mod 2 ^ 32)) < 2 ^ 32 \<and>
       ?spc \<le> length (get_cluster_map options (c mod 2 ^ 32))"
    by blast
  from sample_from_clusters_all2 [OF assms(1) large, of samples g]
  obtain draws g' where
    r: "sample_from_clusters ops options cluster_samples samples g = Inr (samples @ concat draws, g')"
    and a: "list_all2 (\<lambda>c d. \<exists>gi.
           d = take (rows_per_cluster ?spc (length (get_cluster_map options (c mod 2 ^ 32))))
                 (fst (rng_shuffle ops (get_cluster_map options (c mod 2 ^ 32)) gi)))
         cluster_samples draws"
    by blast
  from a have l: "length draws = length cluster_samples" by (simp add: list_all2_lengthD)
  have "length (draws ! i) = ?spc \<and>
        mset (draws ! i) \<subseteq># mset (get_cluster_map options (cluster_samples ! i mod 2 ^ 32)) \<and>
        (\<exists>gi. draws ! i =
           take ?spc (fst (rng_shuffle ops (get_cluster_map options (cluster_samples ! i mod 2 ^ 32)) gi)))"
    if i: "i < length cluster_samples" for i
  proof -
    let ?cl = "get_cluster_map options (cluster_samples ! i mod 2 ^ 32)"
    let ?k = "rows_per_cluster ?spc (length ?cl)"
    from i have "cluster_samples ! i \<in> set cluster_samples" by simp
    with assms(2) have h: "1 \<le> length ?cl" "length ?cl < 2 ^ 32" "?spc \<le> length ?cl"
      and p: "dle (cluster_product ?spc (length ?cl)) (to_double ?spc)"
      by blast+
    from h have s32: "?spc < 2 ^ 32" by simp
    from p have "rnd53 (real (length ?cl) * rnd53 (real ?spc / real (length ?cl))) \<le> real ?spc"
      unfolding cluster_product_eq [OF h] by (simp add: dle_def)
    then have k: "?k = ?spc" by (rule rows_per_cluster_exact [OF h(1,2) s32])
    from a i obtain gi where d: "draws ! i = take ?k (fst (rng_shuffle ops ?cl gi))"
      by (auto simp: list_all2_conv_all_nth)
    have m: "mset (fst (rng_shuffle ops ?cl gi)) = mset ?cl"
      using assms(1) by (simp add: std_library_def)
    have ls: "length (fst (rng_shuffle ops ?cl gi)) = length ?cl"
      by (rule shuffle_length [OF assms(1)])
    have len: "length (draws ! i) = ?spc" using d ls h(3) k by simp
    have sub: "mset (draws ! i) \<subseteq># mset ?cl" unfolding d by (rule mset_take_subset [OF m])
    from len sub d k show ?thesis by auto
  qed
  with r l show ?thesis by blast
qed

text \<open>
  C2, the claim as it stands: all rows of a cluster that has fewer rows than
  \<open>samples_per_cluster\<close>. Cluster \<open>0\<close> of the example has two rows and three rows per
  cluster are asked for: the code computes a subsample size of three, the size of the
  out-of-bag vector \<open>2 - 3\<close> wraps around, and \<open>resize\<close> throws.
\<close>

theorem sample_from_clusters_small_cluster:
  "sample_from_clusters ex_rng ex_options [0] [] 0 = Inl Length_error"
proof -
  have u: "to_uint (dceil (fl_times (to_double (length [5, 6 :: nat]))
      (fl_divide (to_double 3) (to_double (length [5, 6 :: nat]))))) = Inr 3"
    by code_simp
  have "subsample ex_rng [5, 6] (fl_divide (to_double 3) (to_double (length [5, 6 :: nat]))) 0
      = Inl Length_error"
    unfolding subsample_def u by (simp add: ex_rng_def vector_max_size_def)
  then show ?thesis by (simp add: ex_options_def)
qed

text \<open>
  C2 at the clusters \<open>1\<close> and \<open>2\<close> of the example, of four and of a hundred rows, with three
  rows per cluster.
\<close>

theorem sample_from_clusters_exact_rows_witness:
  "std_library ex_rng \<and>
   get_cluster_map ex_options (1 mod 2 ^ 32) = [10, 11, 12, 13] \<and>
   get_cluster_map ex_options (2 mod 2 ^ 32) = [100..<200] \<and>
   get_samples_per_cluster ex_options = 3 \<and>
   dle (cluster_product 3 4) (to_double 3) \<and> dle (cluster_product 3 100) (to_double 3) \<and>
   sample_from_clusters ex_rng ex_options [1, 2] [7] 0 = Inr ([7, 13, 12, 11, 199, 198, 197], 2) \<and>
   (\<exists>draws g'.
      sample_from_clusters ex_rng ex_options [1, 2] [7] 0 = Inr ([7] @ concat draws, g') \<and>
      length draws = 2 \<and> length (draws ! 0) = 3 \<and> length (draws ! 1) = 3 \<and>
      mset (draws ! 0) \<subseteq># mset [10, 11, 12, 13] \<and> mset (draws ! 1) \<subseteq># mset [100..<200])"
proof -
  have c: "get_cluster_map ex_options (1 mod 2 ^ 32) = [10, 11, 12, 13]"
    "get_cluster_map ex_options (2 mod 2 ^ 32) = [100..<200]"
    "get_samples_per_cluster ex_options = 3"
    by (simp_all add: ex_options_def)
  have p: "dle (cluster_product 3 4) (to_double 3)" "dle (cluster_product 3 100) (to_double 3)"
    by code_simp+
  have h: "\<forall>c \<in> set [1, 2 :: nat].
       1 \<le> length (get_cluster_map ex_options (c mod 2 ^ 32)) \<and>
       length (get_cluster_map ex_options (c mod 2 ^ 32)) < 2 ^ 32 \<and>
       get_samples_per_cluster ex_options \<le> length (get_cluster_map ex_options (c mod 2 ^ 32)) \<and>
       dle (cluster_product (get_samples_per_cluster ex_options)
              (length (get_cluster_map ex_options (c mod 2 ^ 32))))
           (to_double (get_samples_per_cluster ex_options))"
  proof -
    have "length (get_cluster_map ex_options (Suc 0)) = 4"
      "length (get_cluster_map ex_options 2) = 100"
      by (simp_all add: ex_options_def)
    then show ?thesis using p by (simp add: c(3))
  qed
  have u: "to_uint (dceil (fl_times (to_double (length [10, 11, 12, 13 :: nat]))
      (fl_divide (to_double 3) (to_double (length [10, 11, 12, 13 :: nat]))))) = Inr 3"
    "to_uint (dceil (fl_times (to_double (length [100..<200]))
      (fl_divide (to_double 3) (to_double (length [100..<200]))))) = Inr 3"
    by code_simp+
  have s1: "subsample ex_rng [10, 11, 12, 13]
      (fl_divide (to_double 3) (to_double (length [10, 11, 12, 13 :: nat]))) 0
      = Inr ([13, 12, 11], [10], 1)"
    unfolding subsample_def u by (simp add: ex_rng_def vector_max_size_def)
  have s2: "subsample ex_rng [100..<200] (fl_divide (to_double 3) (to_double (length [100..<200]))) 1
      = Inr ([199, 198, 197], rev [100..<197], 2)"
    unfolding subsample_def u by (simp add: ex_rng_def vector_max_size_def take_rev drop_rev)
  have e: "sample_from_clusters ex_rng ex_options [1, 2] [7] 0 = Inr ([7, 13, 12, 11, 199, 198, 197], 2)"
    unfolding sample_from_clusters.simps Let_def c s1 s2 sum.case prod.case by simp
  obtain draws g' where
    r: "sample_from_clusters ex_rng ex_options [1, 2] [7] 0 = Inr ([7] @ concat draws, g')"
    and l: "length draws = length [1, 2 :: nat]"
    and a: "\<forall>i < length [1, 2 :: nat].
        length (draws ! i) = get_samples_per_cluster ex_options \<and>
        mset (draws ! i) \<subseteq># mset (get_cluster_map ex_options ([1, 2] ! i mod 2 ^ 32)) \<and>
        (\<exists>gi. draws ! i =
           take (get_samples_per_cluster ex_options)
             (fst (rng_shuffle ex_rng (get_cluster_map ex_options ([1, 2] ! i mod 2 ^ 32)) gi)))"
    using sample_from_clusters_exact_rows [OF std_library_ex_rng h, of "[7]" 0] by blast
  have i: "(0 :: nat) < length [1, 2 :: nat]" "(1 :: nat) < length [1, 2 :: nat]" by simp_all
  have n: "[1, 2 :: nat] ! 0 = 1" "[1, 2 :: nat] ! 1 = 2" by simp_all
  from a i(1) have a0: "length (draws ! 0) = get_samples_per_cluster ex_options"
    "mset (draws ! 0) \<subseteq># mset (get_cluster_map ex_options ([1, 2] ! 0 mod 2 ^ 32))"
    by blast+
  from a i(2) have a1: "length (draws ! 1) = get_samples_per_cluster ex_options"
    "mset (draws ! 1) \<subseteq># mset (get_cluster_map ex_options ([1, 2] ! 1 mod 2 ^ 32))"
    by blast+
  from a0 have d0: "length (draws ! 0) = 3" "mset (draws ! 0) \<subseteq># mset [10, 11, 12, 13]"
    unfolding n c by simp_all
  from a1 have d1: "length (draws ! 1) = 3" "mset (draws ! 1) \<subseteq># mset [100..<200]"
    unfolding n c by simp_all
  from l have l2: "length draws = 2" by simp
  from r l2 d0 d1 c p e std_library_ex_rng show ?thesis by blast
qed

text \<open>
  The product left out above: for a cluster of a hundred rows and seven rows per cluster
  the quotient \<open>7 / 100\<close> is rounded up, the double product is above \<open>7\<close>, and eight rows
  are drawn.
\<close>

lemma rows_per_cluster_overshoot:
  "rows_per_cluster 7 100 = 8" "\<not> dle (cluster_product 7 100) (to_double 7)"
  by code_simp+

lemma sample_from_clusters_overshoot:
  "sample_from_clusters ex_rng (ex_options\<lparr>get_samples_per_cluster := 7\<rparr>) [2] [] 0
     = Inr ([199, 198, 197, 196, 195, 194, 193, 192], 1)"
proof -
  have u: "to_uint (dceil (fl_times (to_double (length [100..<200]))
      (fl_divide (to_double 7) (to_double (length [100..<200]))))) = Inr 8"
    by code_simp
  have "subsample ex_rng [100..<200] (fl_divide (to_double 7) (to_double (length [100..<200]))) 0
      = Inr ([199, 198, 197, 196, 195, 194, 193, 192], rev [100..<192], 1)"
    unfolding subsample_def u
    by (simp add: ex_rng_def vector_max_size_def take_rev drop_rev)
  then show ?thesis by (simp add: ex_options_def)
qed
section \<open>Properties of \<open>draw\<close>\<close>

text \<open>The loop over the skip set.\<close>

lemma skip_shift_Nil [simp]: "skip_shift [] d = d"
  by (simp add: skip_shift_def)

lemma skip_shift_Cons [simp]:
  "skip_shift (s # skip) d = skip_shift skip (if s \<le> d then d + 1 else d)"
  by (simp add: skip_shift_def)

































section \<open>Properties of \<open>compute_variance\<close>\<close>

















end
